theory Spec2Isabelle
  imports Complex_Main "HOL-Library.Word" "HOL-Library.Signed_Division"
begin

unbundle bit_operations_syntax

section \<open>The timer core of pintos-kaist (devices/timer.c)\<close>

subsection \<open>Machine integers\<close>

text \<open>
  \<open>int64_t\<close>, \<open>int32_t\<close> (and \<open>int\<close>), \<open>unsigned\<close>, \<open>uint16_t\<close> and \<open>uint8_t\<close> are
  words of their width. Addition and multiplication wrap around, which is what the
  x86-64 target does on signed overflow; signed values are read with \<open>sint\<close> and
  compared with \<open><s\<close> and \<open>\<le>s\<close>.
\<close>

type_synonym int64 = "64 word"
type_synonym int32 = "32 word"
type_synonym u32 = "32 word"
type_synonym u16 = "16 word"
type_synonym u8 = "8 word"

definition INT64_MAX :: int64 where
  "INT64_MAX = 0x7FFFFFFFFFFFFFFF"

definition INT64_MIN :: int64 where
  "INT64_MIN = - 0x8000000000000000"

text \<open>
  C's \<open>/\<close> and \<open>%\<close> on signed integers truncate toward zero. The division traps (the
  CPU's divide error) on a zero divisor and on the most negative value divided by \<open>-1\<close>;
  \<open>c_div_traps\<close> says when.
\<close>

definition c_div :: "'a::len word \<Rightarrow> 'a word \<Rightarrow> 'a word" where
  "c_div a b = word_of_int (sint a sdiv sint b)"

definition c_mod :: "'a::len word \<Rightarrow> 'a word \<Rightarrow> 'a word" where
  "c_mod a b = word_of_int (sint a smod sint b)"

definition c_div_traps :: "'a::len word \<Rightarrow> 'a word \<Rightarrow> bool" where
  "c_div_traps a b = (b = 0 \<or> (a = - (2 ^ (LENGTH('a) - 1)) \<and> b = - 1))"

subsection \<open>State, effects and errors\<close>

datatype intr_level = INTR_OFF | INTR_ON

text \<open>
  Every call made to a collaborator outside timer.c is an event, and so is every load and
  every store of the two variables that the interrupt handler and the threads share,
  \<open>ticks\<close> and \<open>global_tick\<close>. The trace keeps each event with the interrupt level in
  force when it happens, so it shows which accesses fall inside a masked section.
\<close>

datatype shared = VarTicks | VarGlobalTick

datatype event =
    Outb u16 u8
  | IntrRegisterExt u8
  | IntrDisable
  | IntrSetLevel intr_level
  | Load shared
  | Store shared int64
  | ThreadTick
  | WakeUp int64
  | ThreadSleep int64
  | BusyWait int64

text \<open>
  \<open>ticks\<close>, \<open>global_tick\<close> and \<open>loops_per_tick\<close> are the three static variables of
  timer.c. \<open>intr_level\<close> is the CPU's interrupt flag, \<open>sleepers\<close> the deadlines of the
  scheduler's waiting set, \<open>trace\<close> the events so far.
\<close>

record timer_state =
  ticks :: int64
  global_tick :: int64
  loops_per_tick :: u32
  intr_level :: intr_level
  sleepers :: "int64 list"
  trace :: "(intr_level \<times> event) list"

text \<open>
  The static initialisers: \<open>ticks\<close> and \<open>loops_per_tick\<close> are zero, \<open>global_tick\<close> is
  \<open>INT64_MAX\<close>. The kernel boots with interrupts off.
\<close>

definition boot_state :: timer_state where
  "boot_state = \<lparr>ticks = 0, global_tick = INT64_MAX, loops_per_tick = 0,
     intr_level = INTR_OFF, sleepers = [], trace = []\<rparr>"

text \<open>
  A failed \<open>ASSERT\<close> panics the kernel; a trapping division raises the divide error.
  Either way the system halts, and the result keeps the state at the halt.
\<close>

datatype error = AssertFailed | DivideError

type_synonym 'a result = "(error \<times> timer_state) + 'a"

definition emit :: "event \<Rightarrow> timer_state \<Rightarrow> timer_state" where
  "emit e s = s\<lparr>trace := trace s @ [(intr_level s, e)]\<rparr>"

text \<open>
  An expression of the C code that reads the state: it gives its value and the state
  with the accesses recorded.
\<close>

type_synonym 'a expr = "timer_state \<Rightarrow> 'a \<times> timer_state"

definition load_ticks :: "int64 expr" where
  "load_ticks s = (ticks s, emit (Load VarTicks) s)"

definition store_ticks :: "int64 \<Rightarrow> timer_state \<Rightarrow> timer_state" where
  "store_ticks v s = (emit (Store VarTicks v) s)\<lparr>ticks := v\<rparr>"

definition load_global_tick :: "int64 expr" where
  "load_global_tick s = (global_tick s, emit (Load VarGlobalTick) s)"

definition store_global_tick :: "int64 \<Rightarrow> timer_state \<Rightarrow> timer_state" where
  "store_global_tick v s = (emit (Store VarGlobalTick v) s)\<lparr>global_tick := v\<rparr>"

text \<open>
  The macro \<open>MIN(a, b) ((a) < (b) ? (a) : (b))\<close> at type \<open>int64_t\<close> (the name \<open>MIN\<close> is
  taken in HOL). It is a macro, so its operands are expressions: both are evaluated for
  the comparison and the chosen one is evaluated again for the value.
\<close>

definition MIN_macro :: "int64 expr \<Rightarrow> int64 expr \<Rightarrow> int64 expr" where
  "MIN_macro a b s =
     (let (x, s1) = a s;
          (y, s2) = b s1
      in if x <s y then a s2 else b s2)"

subsection \<open>Collaborators outside timer.c\<close>

text \<open>
  Modelled from the spec: threads/interrupt.c is missing. The interrupt mask is a global
  toggle; \<open>intr_get_level\<close> reads it, \<open>intr_disable\<close> masks interrupts and returns the
  prior state, \<open>intr_set_level\<close> restores a saved state. The two calls that change the
  mask are recorded in the trace.
\<close>

definition intr_get_level :: "timer_state \<Rightarrow> intr_level" where
  "intr_get_level s = intr_level s"

definition intr_disable :: "timer_state \<Rightarrow> intr_level \<times> timer_state" where
  "intr_disable s = (intr_level s, (emit IntrDisable s)\<lparr>intr_level := INTR_OFF\<rparr>)"

definition intr_set_level :: "intr_level \<Rightarrow> timer_state \<Rightarrow> timer_state" where
  "intr_set_level l s = (emit (IntrSetLevel l) s)\<lparr>intr_level := l\<rparr>"

text \<open>
  Modelled from the spec: threads/io.h and the interrupt registration are missing.
  \<open>outb\<close> writes a byte to a port, \<open>intr_register_ext\<close> registers the handler at a
  vector; both are recorded in the trace.
\<close>

definition outb :: "u16 \<Rightarrow> u8 \<Rightarrow> timer_state \<Rightarrow> timer_state" where
  "outb port data s = emit (Outb port data) s"

definition intr_register_ext :: "u8 \<Rightarrow> timer_state \<Rightarrow> timer_state" where
  "intr_register_ext vec s = emit (IntrRegisterExt vec) s"

text \<open>
  Modelled from the spec: threads/thread.c is missing. \<open>thread_tick\<close> is the scheduler's
  per-tick accounting hook. \<open>thread_sleep\<close> is its enqueue-until-deadline operation: the
  deadline joins the waiting set. \<open>wake_up\<close> is its wake-sweep: it walks the waiting set
  and wakes everything whose deadline has passed. \<open>global_tick\<close> is static in timer.c
  and timer.c exports no setter, so neither can write it.
\<close>

definition thread_tick :: "timer_state \<Rightarrow> timer_state" where
  "thread_tick s = emit ThreadTick s"

definition thread_sleep :: "int64 \<Rightarrow> timer_state \<Rightarrow> timer_state" where
  "thread_sleep d s = emit (ThreadSleep d) (s\<lparr>sleepers := sleepers s @ [d]\<rparr>)"

definition wake_up :: "int64 \<Rightarrow> timer_state \<Rightarrow> timer_state" where
  "wake_up now s = emit (WakeUp now) (s\<lparr>sleepers := filter (\<lambda>d. \<not> d \<le>s now) (sleepers s)\<rparr>)"

subsection \<open>timer\_init\<close>

text \<open>
  \<open>TIMER_FREQ\<close> is a macro of devices/timer.h, which is missing: it is the parameter
  \<open>freq\<close>, a C \<open>int\<close>. The two \<open>#if ... #error\<close> lines reject a build outside
  \<open>[19, 1000]\<close>.
\<close>

definition TIMER_FREQ_ok :: "int32 \<Rightarrow> bool" where
  "TIMER_FREQ_ok freq = (\<not> freq <s 19 \<and> \<not> 1000 <s freq)"

text \<open>
  \<open>uint16_t count = (1193180 + TIMER_FREQ / 2) / TIMER_FREQ\<close>: computed at type \<open>int\<close>,
  then converted to 16 bits.
\<close>

definition pit_count_int :: "int32 \<Rightarrow> int32" where
  "pit_count_int freq = c_div (1193180 + c_div freq 2) freq"

definition pit_count :: "int32 \<Rightarrow> u16" where
  "pit_count freq = ucast (pit_count_int freq)"

definition timer_init :: "int32 \<Rightarrow> timer_state \<Rightarrow> timer_state" where
  "timer_init freq s =
     (let count = pit_count freq;
          s1 = outb 0x43 0x34 s;
          s2 = outb 0x40 (ucast (count AND 0xff)) s1;
          s3 = outb 0x40 (ucast (drop_bit 8 count)) s2
      in intr_register_ext 0x20 s3)"

subsection \<open>timer\_ticks, timer\_elapsed, timer\_sleep\<close>

definition timer_ticks :: "timer_state \<Rightarrow> int64 \<times> timer_state" where
  "timer_ticks s =
     (let (old_level, s1) = intr_disable s;
          (t, s2) = load_ticks s1;
          s3 = intr_set_level old_level s2
      in (t, s3))"

definition timer_elapsed :: "int64 \<Rightarrow> timer_state \<Rightarrow> int64 \<times> timer_state" where
  "timer_elapsed then' s = (let (t, s1) = timer_ticks s in (t - then', s1))"

text \<open>
  \<open>global_tick = MIN((global_tick), (start + ticks))\<close> evaluates the macro, whose first
  operand reads \<open>global_tick\<close> and whose second is a sum of two locals, and stores the
  value.
\<close>

definition timer_sleep :: "int64 \<Rightarrow> timer_state \<Rightarrow> timer_state" where
  "timer_sleep nticks s =
     (let (old_level, s1) = intr_disable s;
          (start, s2) = timer_ticks s1;
          (m, s3) = MIN_macro load_global_tick (\<lambda>s. (start + nticks, s)) s2;
          s4 = store_global_tick m s3;
          s5 = thread_sleep (start + nticks) s4
      in intr_set_level old_level s5)"

subsection \<open>The interrupt handler\<close>

text \<open>
  \<open>ticks++\<close> is a load and a store of \<open>ticks\<close>; the test \<open>global_tick < ticks\<close> loads both
  variables; the argument of \<open>wake_up (ticks)\<close> loads \<open>ticks\<close> once more.
\<close>

definition timer_interrupt :: "timer_state \<Rightarrow> timer_state" where
  "timer_interrupt s =
     (let (t0, s1) = load_ticks s;
          s2 = store_ticks (t0 + 1) s1;
          s3 = thread_tick s2;
          (g, s4) = load_global_tick s3;
          (t, s5) = load_ticks s4
      in if g <s t then (let (now, s6) = load_ticks s5 in wake_up now s6) else s5)"

text \<open>
  Modelled from the spec: the interrupt dispatch of threads/interrupt.c is missing. The
  handler runs with interrupts already masked by the dispatch mechanism, which puts the
  interrupted level back when the handler returns. The dispatch is the CPU's doing, not
  a call of \<open>intr_disable\<close> or \<open>intr_set_level\<close>, so it leaves no event of its own.
\<close>

definition deliver_tick :: "timer_state \<Rightarrow> timer_state" where
  "deliver_tick s = (timer_interrupt (s\<lparr>intr_level := INTR_OFF\<rparr>))\<lparr>intr_level := intr_level s\<rparr>"

primrec deliver_ticks :: "nat \<Rightarrow> timer_state \<Rightarrow> timer_state" where
  "deliver_ticks 0 s = s"
| "deliver_ticks (Suc n) s = deliver_tick (deliver_ticks n s)"

subsection \<open>timer\_calibrate\<close>

text \<open>
  \<open>too_many_loops\<close> aligns to a tick, spins \<open>loops\<close> times and reports whether the tick
  counter moved meanwhile. The counter is moved by the interrupt handler while the
  thread spins, so the answer is decided by the speed of the machine: the calibration
  takes it as the parameter \<open>tml\<close>, a function of the loop count. \<open>printf\<close> is left
  out.

  The first loop of \<open>timer_calibrate\<close>, on the value of \<open>loops_per_tick\<close>:
  \<open>while (!too_many_loops (loops_per_tick << 1)) { loops_per_tick <<= 1;
  ASSERT (loops_per_tick != 0); }\<close>. A failed assertion is \<open>Inl\<close> of the value at the
  halt.
\<close>

function calibrate_double :: "(u32 \<Rightarrow> bool) \<Rightarrow> u32 \<Rightarrow> u32 + u32" where
  "calibrate_double tml lpt =
     (if \<not> tml (push_bit 1 lpt)
      then (let lpt1 = push_bit 1 lpt
            in if lpt1 \<noteq> 0 then calibrate_double tml lpt1 else Inl lpt1)
      else Inr lpt)"
  by pat_completeness auto

text \<open>
  A shift to the left that does not give zero leaves one shift fewer before the value
  is shifted out of the 32 bits.
\<close>

termination calibrate_double
proof (relation "measure (\<lambda>(f, lpt). card {n. n < 32 \<and> push_bit n lpt \<noteq> 0})")
  show "wf (measure (\<lambda>(f, lpt::u32). card {n. n < 32 \<and> push_bit n lpt \<noteq> 0}))"
    by simp
next
  fix tml :: "u32 \<Rightarrow> bool" and lpt x :: u32
  assume x: "x = push_bit 1 lpt" "x \<noteq> 0"
  let ?A = "{n. n < 32 \<and> push_bit n lpt \<noteq> 0}"
  let ?B = "{n. n < 32 \<and> push_bit (Suc n) lpt \<noteq> 0}"
  have beyond: "push_bit n lpt = 0" if "32 \<le> n" for n
    using that by (intro bit_eqI) (auto simp: bit_push_bit_iff dest: bit_imp_le_length)
  have double: "push_bit n x = push_bit (Suc n) lpt" for n
    using x by (simp add: push_bit_eq_mult)
  have l0: "lpt \<noteq> 0"
    using x by auto
  have sub: "Suc ` ?B \<subseteq> ?A - {0}"
  proof
    fix m assume "m \<in> Suc ` ?B"
    then obtain n where n: "m = Suc n" "n < 32" "push_bit (Suc n) lpt \<noteq> 0"
      by blast
    have "Suc n < 32"
      using n(3) beyond [of "Suc n"] by (cases "Suc n < 32") auto
    with n show "m \<in> ?A - {0}" by simp
  qed
  have fin: "finite ?A"
    by simp
  have "card ?B = card (Suc ` ?B)"
    by (simp add: card_image)
  also have "\<dots> \<le> card (?A - {0})"
    by (rule card_mono) (use sub in auto)
  also have "\<dots> < card ?A"
  proof (rule psubset_card_mono [OF fin])
    have "0 \<in> ?A" using l0 by simp
    then show "?A - {0} \<subset> ?A" by blast
  qed
  finally have "card {n. n < 32 \<and> push_bit n x \<noteq> 0} < card ?A"
    unfolding double .
  then show "((tml, x), tml, lpt)
        \<in> measure (\<lambda>(f, lpt). card {n. n < 32 \<and> push_bit n lpt \<noteq> 0})"
    by simp
qed

text \<open>
  A machine on which \<open>cap\<close> iterations of the spin loop fit in one tick: after the
  alignment to a tick, the counter moves during \<open>busy_wait (loops)\<close> exactly when \<open>loops\<close>
  exceeds \<open>cap\<close>.
\<close>

definition too_many_loops :: "nat \<Rightarrow> u32 \<Rightarrow> bool" where
  "too_many_loops cap loops = (cap < unat loops)"

text \<open>
  The second loop: \<open>for (test_bit = high_bit >> 1; test_bit != high_bit >> 10;
  test_bit >>= 1) if (!too_many_loops (high_bit | test_bit)) loops_per_tick |= test_bit;\<close>.
  The loop ends only when \<open>test_bit\<close> meets the bound, so it is a partial function:
  \<open>None\<close> is a loop that never ends.
\<close>

partial_function (option) calibrate_refine ::
  "(u32 \<Rightarrow> bool) \<Rightarrow> u32 \<Rightarrow> u32 \<Rightarrow> u32 \<Rightarrow> u32 option" where
  "calibrate_refine tml high_bit test_bit lpt =
     (if test_bit \<noteq> drop_bit 10 high_bit
      then calibrate_refine tml high_bit (drop_bit 1 test_bit)
             (if \<not> tml (high_bit OR test_bit) then lpt OR test_bit else lpt)
      else Some lpt)"

declare calibrate_refine.simps [code]

definition timer_calibrate ::
  "(u32 \<Rightarrow> bool) \<Rightarrow> timer_state \<Rightarrow> timer_state result option" where
  "timer_calibrate tml s =
     (if intr_get_level s \<noteq> INTR_ON then Some (Inl (AssertFailed, s))
      else case calibrate_double tml (push_bit 10 1) of
             Inl lpt0 \<Rightarrow> Some (Inl (AssertFailed, s\<lparr>loops_per_tick := lpt0\<rparr>))
           | Inr lpt1 \<Rightarrow>
               (let high_bit = lpt1
                in case calibrate_refine tml high_bit (drop_bit 1 high_bit) lpt1 of
                     None \<Rightarrow> None
                   | Some lpt2 \<Rightarrow> Some (Inr (s\<lparr>loops_per_tick := lpt2\<rparr>))))"

subsection \<open>busy\_wait and real\_time\_sleep\<close>

text \<open>
  \<open>while (loops-- > 0) barrier ();\<close>: \<open>busy_wait_loop\<close> counts the iterations. The spin
  has no effect but the time it takes, so \<open>busy_wait\<close> records the call and its argument.
\<close>

function busy_wait_loop :: "int64 \<Rightarrow> nat \<Rightarrow> nat" where
  "busy_wait_loop loops n = (if 0 <s loops then busy_wait_loop (loops - 1) (Suc n) else n)"
  by pat_completeness auto

termination busy_wait_loop
proof (relation "measure (\<lambda>(loops, n). nat (sint loops))")
  show "wf (measure (\<lambda>(loops::int64, n::nat). nat (sint loops)))"
    by simp
next
  fix loops :: int64 and n :: nat
  assume pos: "0 <s loops"
  then have "0 < sint loops"
    by (simp add: word_sless_alt)
  have ub: "sint loops < 2 ^ 63"
    using sint_lt [of loops] by simp
  have "sint (loops - 1) = signed_take_bit 63 (sint loops - 1)"
    by (simp add: sint_word_ariths)
  also have "\<dots> = sint loops - 1"
    using pos ub by (intro signed_take_bit_int_eq_self) (auto simp: word_sless_alt)
  finally have "sint (loops - 1) = sint loops - 1" .
  with \<open>0 < sint loops\<close> show "((loops - 1, Suc n), loops, n) \<in> measure (\<lambda>(loops, n). nat (sint loops))"
    by simp
qed

definition busy_wait :: "int64 \<Rightarrow> timer_state \<Rightarrow> timer_state" where
  "busy_wait loops s = emit (BusyWait loops) s"

text \<open>
  \<open>int64_t ticks = num * TIMER_FREQ / denom\<close> is computed before the assertion; its
  division traps on a zero \<open>denom\<close>. In the busy-wait branch the argument is
  \<open>loops_per_tick * num / 1000 * TIMER_FREQ / (denom / 1000)\<close>, which C reads from left
  to right: \<open>loops_per_tick\<close> (unsigned, 32 bits) and \<open>TIMER_FREQ\<close> are converted to
  64 bits, \<open>denom / 1000\<close> is a division at 32 bits whose quotient is then converted.
\<close>

definition busy_wait_arg :: "int32 \<Rightarrow> u32 \<Rightarrow> int64 \<Rightarrow> int32 \<Rightarrow> int64" where
  "busy_wait_arg freq lpt num denom =
     c_div (c_div (ucast lpt * num) 1000 * scast freq) (scast (c_div denom 1000))"

definition real_time_sleep :: "int32 \<Rightarrow> int64 \<Rightarrow> int32 \<Rightarrow> timer_state \<Rightarrow> timer_state result" where
  "real_time_sleep freq num denom s =
     (if c_div_traps (num * scast freq) (scast denom :: int64) then Inl (DivideError, s)
      else let nticks = c_div (num * scast freq) (scast denom) in
        if intr_get_level s \<noteq> INTR_ON then Inl (AssertFailed, s)
        else if 0 <s nticks then Inr (timer_sleep nticks s)
        else if c_mod denom 1000 \<noteq> 0 then Inl (AssertFailed, s)
        else if c_div_traps (c_div (ucast (loops_per_tick s) * num) 1000 * scast freq)
                  (scast (c_div denom 1000) :: int64)
          then Inl (DivideError, s)
        else Inr (busy_wait (busy_wait_arg freq (loops_per_tick s) num denom) s))"

definition timer_msleep :: "int32 \<Rightarrow> int64 \<Rightarrow> timer_state \<Rightarrow> timer_state result" where
  "timer_msleep freq ms s = real_time_sleep freq ms 1000 s"

definition timer_usleep :: "int32 \<Rightarrow> int64 \<Rightarrow> timer_state \<Rightarrow> timer_state result" where
  "timer_usleep freq us s = real_time_sleep freq us (1000 * 1000) s"

definition timer_nsleep :: "int32 \<Rightarrow> int64 \<Rightarrow> timer_state \<Rightarrow> timer_state result" where
  "timer_nsleep freq ns s = real_time_sleep freq ns (1000 * 1000 * 1000) s"

subsection \<open>Runs of the timer core\<close>

text \<open>
  What can happen to the timer state, one operation at a time: a delivered timer
  interrupt, a call of one of the entry points of timer.c from a thread, or a thread
  changing the interrupt level. A run stops at the first halt.
\<close>

datatype op =
    Tick
  | Init
  | Calibrate
  | Ticks
  | Elapsed int64
  | Sleep int64
  | Msleep int64
  | Usleep int64
  | Nsleep int64
  | SetLevel intr_level

definition step ::
  "int32 \<Rightarrow> (u32 \<Rightarrow> bool) \<Rightarrow> op \<Rightarrow> timer_state \<Rightarrow> timer_state result option" where
  "step freq tml o' s =
     (case o' of
        Tick \<Rightarrow> Some (Inr (deliver_tick s))
      | Init \<Rightarrow> Some (Inr (timer_init freq s))
      | Calibrate \<Rightarrow> timer_calibrate tml s
      | Ticks \<Rightarrow> Some (Inr (snd (timer_ticks s)))
      | Elapsed t \<Rightarrow> Some (Inr (snd (timer_elapsed t s)))
      | Sleep t \<Rightarrow> Some (Inr (timer_sleep t s))
      | Msleep n \<Rightarrow> Some (timer_msleep freq n s)
      | Usleep n \<Rightarrow> Some (timer_usleep freq n s)
      | Nsleep n \<Rightarrow> Some (timer_nsleep freq n s)
      | SetLevel l \<Rightarrow> Some (Inr (intr_set_level l s)))"

fun run ::
  "int32 \<Rightarrow> (u32 \<Rightarrow> bool) \<Rightarrow> op list \<Rightarrow> timer_state \<Rightarrow> timer_state result option" where
  "run freq tml [] s = Some (Inr s)"
| "run freq tml (o' # os) s =
     (case step freq tml o' s of
        None \<Rightarrow> None
      | Some (Inl e) \<Rightarrow> Some (Inl e)
      | Some (Inr s1) \<Rightarrow> run freq tml os s1)"

text \<open>The arguments of the calls of \<open>wake_up\<close> and of \<open>thread_sleep\<close> in a trace.\<close>

fun wake_calls :: "(intr_level \<times> event) list \<Rightarrow> int64 list" where
  "wake_calls [] = []"
| "wake_calls ((l, WakeUp t) # es) = t # wake_calls es"
| "wake_calls (e # es) = wake_calls es"

fun sleep_calls :: "(intr_level \<times> event) list \<Rightarrow> int64 list" where
  "sleep_calls [] = []"
| "sleep_calls ((l, ThreadSleep d) # es) = d # sleep_calls es"
| "sleep_calls (e # es) = sleep_calls es"

fun busy_calls :: "(intr_level \<times> event) list \<Rightarrow> int64 list" where
  "busy_calls [] = []"
| "busy_calls ((l, BusyWait n) # es) = n # busy_calls es"
| "busy_calls (e # es) = busy_calls es"

subsection \<open>Predicates used by the properties\<close>

text \<open>
  The invariant of the watermark: it is at or below every deadline in the waiting set;
  every deadline in the waiting set was registered by a call of \<open>thread_sleep\<close>; it is
  the least of the sentinel and the deadlines registered so far; and as long as no
  wake-sweep has run, the waiting set holds exactly the deadlines registered so far.
\<close>

definition watermark_inv :: "timer_state \<Rightarrow> bool" where
  "watermark_inv s =
     ((\<forall>d \<in> set (sleepers s). global_tick s \<le>s d)
      \<and> set (sleepers s) \<subseteq> set (sleep_calls (trace s))
      \<and> sint (global_tick s) = Min (insert (sint INT64_MAX) (sint ` set (sleep_calls (trace s))))
      \<and> (wake_calls (trace s) = [] \<longrightarrow> sleepers s = sleep_calls (trace s)))"

text \<open>
  A stretch of the trace is one interrupt-masked section when it opens with a call of
  \<open>intr_disable\<close>, every later event happens at level \<open>INTR_OFF\<close>, no event before the
  last one turns interrupts on, and the last event is the call of \<open>intr_set_level\<close> that
  closes it.
\<close>

definition masked_section :: "(intr_level \<times> event) list \<Rightarrow> bool" where
  "masked_section es =
     (case es of
        [] \<Rightarrow> False
      | e # rest \<Rightarrow>
          snd e = IntrDisable \<and> rest \<noteq> []
          \<and> list_all (\<lambda>x. fst x = INTR_OFF) rest
          \<and> list_all (\<lambda>x. snd x \<noteq> IntrSetLevel INTR_ON) (butlast rest)
          \<and> (case snd (last rest) of IntrSetLevel l \<Rightarrow> True | _ \<Rightarrow> False))"

text \<open>
  The spin count in the grouping the spec states,
  \<open>LoopsPerTick * (numerator / 1000) * tick_frequency / (denominator / 1000)\<close>: the
  numerator is divided by 1000 before it is multiplied by \<open>LoopsPerTick\<close>.
\<close>

definition busy_wait_arg_spec :: "int32 \<Rightarrow> u32 \<Rightarrow> int64 \<Rightarrow> int32 \<Rightarrow> int64" where
  "busy_wait_arg_spec freq lpt num denom =
     c_div (ucast lpt * c_div num 1000 * scast freq) (scast (c_div denom 1000))"

text \<open>
  The refinement phase as the spec states it: for each bit position from
  \<open>high_bit >> 1\<close> down to \<open>high_bit >> 10\<close>, the bit is OR-ed tentatively into the
  accumulator and kept only if the resulting count still fits within a tick.
\<close>

definition calibrate_refine_spec :: "(u32 \<Rightarrow> bool) \<Rightarrow> u32 \<Rightarrow> u32" where
  "calibrate_refine_spec tml h =
     fold (\<lambda>j acc. if \<not> tml (acc OR drop_bit j h) then acc OR drop_bit j h else acc)
       [1, 2, 3, 4, 5, 6, 7, 8, 9, 10] h"

section \<open>Properties\<close>

subsection \<open>What each operation does to the state\<close>

lemma timer_ticks_eq:
  "timer_ticks s = (ticks s, s\<lparr>trace := trace s @
     [(intr_level s, IntrDisable), (INTR_OFF, Load VarTicks),
      (INTR_OFF, IntrSetLevel (intr_level s))]\<rparr>)"
  by (simp add: timer_ticks_def intr_disable_def intr_set_level_def load_ticks_def emit_def)

lemma timer_sleep_eq:
  "timer_sleep t s =
     s\<lparr>global_tick := (if global_tick s <s ticks s + t then global_tick s else ticks s + t),
       sleepers := sleepers s @ [ticks s + t],
       trace := trace s @
         [(intr_level s, IntrDisable), (INTR_OFF, IntrDisable), (INTR_OFF, Load VarTicks),
          (INTR_OFF, IntrSetLevel INTR_OFF), (INTR_OFF, Load VarGlobalTick)] @
         (if global_tick s <s ticks s + t then [(INTR_OFF, Load VarGlobalTick)] else []) @
         [(INTR_OFF, Store VarGlobalTick
             (if global_tick s <s ticks s + t then global_tick s else ticks s + t)),
          (INTR_OFF, ThreadSleep (ticks s + t)),
          (INTR_OFF, IntrSetLevel (intr_level s))]\<rparr>"
  by (simp add: timer_sleep_def timer_ticks_eq intr_disable_def intr_set_level_def
      MIN_macro_def load_global_tick_def store_global_tick_def thread_sleep_def emit_def)

lemma sint_if_less: "sint (if a <s b then a else b) = min (sint a) (sint b)"
  by (simp add: word_sless_alt min_def)

lemma wake_calls_append: "wake_calls (xs @ ys) = wake_calls xs @ wake_calls ys"
  by (induction xs rule: wake_calls.induct) simp_all

lemma sleep_calls_append: "sleep_calls (xs @ ys) = sleep_calls xs @ sleep_calls ys"
  by (induction xs rule: sleep_calls.induct) simp_all

lemma busy_calls_append: "busy_calls (xs @ ys) = busy_calls xs @ busy_calls ys"
  by (induction xs rule: busy_calls.induct) simp_all

lemma timer_interrupt_eq:
  "timer_interrupt s =
     (if global_tick s <s ticks s + 1
      then s\<lparr>ticks := ticks s + 1,
             sleepers := filter (\<lambda>d. \<not> d \<le>s ticks s + 1) (sleepers s),
             trace := trace s @
               [(intr_level s, Load VarTicks), (intr_level s, Store VarTicks (ticks s + 1)),
                (intr_level s, ThreadTick), (intr_level s, Load VarGlobalTick),
                (intr_level s, Load VarTicks), (intr_level s, Load VarTicks),
                (intr_level s, WakeUp (ticks s + 1))]\<rparr>
      else s\<lparr>ticks := ticks s + 1,
             trace := trace s @
               [(intr_level s, Load VarTicks), (intr_level s, Store VarTicks (ticks s + 1)),
                (intr_level s, ThreadTick), (intr_level s, Load VarGlobalTick),
                (intr_level s, Load VarTicks)]\<rparr>)"
  by (simp add: timer_interrupt_def load_ticks_def store_ticks_def load_global_tick_def
      thread_tick_def wake_up_def emit_def)

lemma deliver_tick_eq:
  "deliver_tick s =
     (if global_tick s <s ticks s + 1
      then s\<lparr>ticks := ticks s + 1,
             sleepers := filter (\<lambda>d. \<not> d \<le>s ticks s + 1) (sleepers s),
             trace := trace s @
               [(INTR_OFF, Load VarTicks), (INTR_OFF, Store VarTicks (ticks s + 1)),
                (INTR_OFF, ThreadTick), (INTR_OFF, Load VarGlobalTick),
                (INTR_OFF, Load VarTicks), (INTR_OFF, Load VarTicks),
                (INTR_OFF, WakeUp (ticks s + 1))]\<rparr>
      else s\<lparr>ticks := ticks s + 1,
             trace := trace s @
               [(INTR_OFF, Load VarTicks), (INTR_OFF, Store VarTicks (ticks s + 1)),
                (INTR_OFF, ThreadTick), (INTR_OFF, Load VarGlobalTick),
                (INTR_OFF, Load VarTicks)]\<rparr>)"
  by (simp add: deliver_tick_def timer_interrupt_eq)

lemma deliver_ticks_fields:
  "ticks (deliver_ticks n s) = ticks s + of_nat n"
  "global_tick (deliver_ticks n s) = global_tick s"
  "loops_per_tick (deliver_ticks n s) = loops_per_tick s"
  "intr_level (deliver_ticks n s) = intr_level s"
  by (induction n) (simp_all add: deliver_tick_eq)

text \<open>\<open>busy_wait (loops)\<close> spins \<open>loops\<close> times, and not at all for \<open>loops \<le> 0\<close>.\<close>

lemma busy_wait_loop_count:
  "busy_wait_loop loops n = n + (if 0 <s loops then nat (sint loops) else 0)"
proof (induction loops n rule: busy_wait_loop.induct)
  case (1 loops n)
  show ?case
  proof (cases "0 <s loops")
    case True
    then have pos: "0 < sint loops"
      by (simp add: word_sless_alt)
    have ub: "sint loops < 2 ^ 63"
      using sint_lt [of loops] by simp
    have "sint (loops - 1) = signed_take_bit 63 (sint loops - 1)"
      by (simp add: sint_word_ariths)
    also have "\<dots> = sint loops - 1"
      using pos ub by (intro signed_take_bit_int_eq_self) auto
    finally have d: "sint (loops - 1) = sint loops - 1" .
    have "busy_wait_loop loops n = busy_wait_loop (loops - 1) (Suc n)"
      using True by (subst busy_wait_loop.simps) simp
    also have "\<dots> = Suc n + (if 0 <s loops - 1 then nat (sint (loops - 1)) else 0)"
      using "1.IH" [OF True] .
    also have "\<dots> = n + nat (sint loops)"
      using pos by (auto simp: word_sless_alt d nat_diff_distrib)
    finally show ?thesis
      using True by simp
  next
    case False
    then show ?thesis
      by (subst busy_wait_loop.simps) simp
  qed
qed

lemma sint_add_nonpos:
  fixes a t :: int64
  assumes "0 \<le> sint a" "sint t \<le> 0"
  shows "sint (a + t) = sint a + sint t"
proof -
  have "sint a < 2 ^ 63" "- (2 ^ 63) \<le> sint t"
    using sint_lt [of a] sint_ge [of t] by simp_all
  then have "signed_take_bit 63 (sint a + sint t) = sint a + sint t"
    using assms by (intro signed_take_bit_int_eq_self) auto
  then show ?thesis
    by (simp add: sint_word_ariths)
qed

subsection \<open>Sleep registration\<close>

text \<open>
  C5. For every tick count \<open>t\<close>, what \<open>timer_sleep t\<close> does is one interrupt-masked
  section: it calls \<open>intr_disable\<close>; then, with interrupts off at every step, it reads the
  tick counter (inside \<open>timer_ticks\<close>, whose own \<open>intr_set_level\<close> puts back \<open>INTR_OFF\<close>),
  reads \<open>global_tick\<close>, stores \<open>MIN (global_tick, start + t)\<close> into it, and calls
  \<open>thread_sleep (start + t)\<close>; last it calls \<open>intr_set_level\<close> with the level it found at
  entry, which is the level it leaves. The stored watermark is the lesser of the old
  watermark and the deadline; the tick counter and \<open>loops_per_tick\<close> are untouched.
\<close>

theorem timer_sleep_masked:
  "trace (timer_sleep t s) = trace s @
      [(intr_level s, IntrDisable), (INTR_OFF, IntrDisable), (INTR_OFF, Load VarTicks),
       (INTR_OFF, IntrSetLevel INTR_OFF), (INTR_OFF, Load VarGlobalTick)] @
      (if global_tick s <s ticks s + t then [(INTR_OFF, Load VarGlobalTick)] else []) @
      [(INTR_OFF, Store VarGlobalTick (global_tick (timer_sleep t s))),
       (INTR_OFF, ThreadSleep (ticks s + t)),
       (INTR_OFF, IntrSetLevel (intr_level s))]
   \<and> masked_section (drop (length (trace s)) (trace (timer_sleep t s)))
   \<and> global_tick (timer_sleep t s) =
       (if global_tick s <s ticks s + t then global_tick s else ticks s + t)
   \<and> sint (global_tick (timer_sleep t s)) = min (sint (global_tick s)) (sint (ticks s + t))
   \<and> sleepers (timer_sleep t s) = sleepers s @ [ticks s + t]
   \<and> intr_level (timer_sleep t s) = intr_level s
   \<and> ticks (timer_sleep t s) = ticks s
   \<and> loops_per_tick (timer_sleep t s) = loops_per_tick s"
proof -
  have tr: "trace (timer_sleep t s) = trace s @
      [(intr_level s, IntrDisable), (INTR_OFF, IntrDisable), (INTR_OFF, Load VarTicks),
       (INTR_OFF, IntrSetLevel INTR_OFF), (INTR_OFF, Load VarGlobalTick)] @
      (if global_tick s <s ticks s + t then [(INTR_OFF, Load VarGlobalTick)] else []) @
      [(INTR_OFF, Store VarGlobalTick (global_tick (timer_sleep t s))),
       (INTR_OFF, ThreadSleep (ticks s + t)),
       (INTR_OFF, IntrSetLevel (intr_level s))]"
    by (simp add: timer_sleep_eq)
  have ms: "masked_section (drop (length (trace s)) (trace (timer_sleep t s)))"
    unfolding tr by (simp add: masked_section_def)
  have g: "global_tick (timer_sleep t s) =
       (if global_tick s <s ticks s + t then global_tick s else ticks s + t)"
    by (simp add: timer_sleep_eq)
  have m: "sint (global_tick (timer_sleep t s)) = min (sint (global_tick s)) (sint (ticks s + t))"
    unfolding g by (rule sint_if_less)
  show ?thesis
    using tr ms g m by (simp add: timer_sleep_eq)
qed

text \<open>
  C10, as the code has it. A tick count \<open>t \<le> 0\<close> is neither rejected nor
  short-circuited: the watermark becomes the lesser of the old watermark and \<open>now + t\<close>
  (the 64-bit sum), never more than it was, and the deadline \<open>now + t\<close> is registered with
  \<open>thread_sleep\<close>, by the path every \<open>t\<close> takes. While the tick counter is not negative
  the sum does not wrap, so the deadline and the new watermark are at or before the
  current tick.
\<close>

theorem timer_sleep_nonpositive:
  assumes "t \<le>s 0"
  shows "global_tick (timer_sleep t s) =
      (if global_tick s <s ticks s + t then global_tick s else ticks s + t)
    \<and> sint (global_tick (timer_sleep t s)) = min (sint (global_tick s)) (sint (ticks s + t))
    \<and> global_tick (timer_sleep t s) \<le>s global_tick s
    \<and> sleepers (timer_sleep t s) = sleepers s @ [ticks s + t]
    \<and> sleep_calls (trace (timer_sleep t s)) = sleep_calls (trace s) @ [ticks s + t]
    \<and> (0 \<le>s ticks s \<longrightarrow>
          sint (ticks s + t) = sint (ticks s) + sint t
          \<and> ticks s + t \<le>s ticks s
          \<and> global_tick (timer_sleep t s) \<le>s ticks s
          \<and> sint (global_tick (timer_sleep t s)) =
              min (sint (global_tick s)) (sint (ticks s) + sint t))"
proof -
  have g: "global_tick (timer_sleep t s) =
      (if global_tick s <s ticks s + t then global_tick s else ticks s + t)"
    by (simp add: timer_sleep_eq)
  have m: "sint (global_tick (timer_sleep t s)) = min (sint (global_tick s)) (sint (ticks s + t))"
    unfolding g by (rule sint_if_less)
  have lower: "global_tick (timer_sleep t s) \<le>s global_tick s"
    unfolding word_sle_eq m by simp
  have reg: "sleepers (timer_sleep t s) = sleepers s @ [ticks s + t]"
    "sleep_calls (trace (timer_sleep t s)) = sleep_calls (trace s) @ [ticks s + t]"
    by (simp_all add: timer_sleep_eq sleep_calls_append)
  have past: "sint (ticks s + t) = sint (ticks s) + sint t \<and> ticks s + t \<le>s ticks s
      \<and> global_tick (timer_sleep t s) \<le>s ticks s
      \<and> sint (global_tick (timer_sleep t s)) = min (sint (global_tick s)) (sint (ticks s) + sint t)"
    if nn: "0 \<le>s ticks s"
  proof -
    have e: "sint (ticks s + t) = sint (ticks s) + sint t"
      using assms nn by (intro sint_add_nonpos) (simp_all add: word_sle_eq)
    then have le: "sint (ticks s + t) \<le> sint (ticks s)"
      using assms by (simp add: word_sle_eq)
    then have "min (sint (global_tick s)) (sint (ticks s + t)) \<le> sint (ticks s)"
      by (rule min.coboundedI2)
    then show ?thesis
      using e le m by (simp add: word_sle_eq)
  qed
  from g m lower reg past show ?thesis
    by blast
qed

theorem timer_sleep_nonpositive_witness:
  "(- 5 :: int64) \<le>s 0 \<and> 0 \<le>s ticks (boot_state\<lparr>ticks := 250\<rparr>)
   \<and> global_tick (timer_sleep (- 5) (boot_state\<lparr>ticks := 250\<rparr>)) = 245
   \<and> sleepers (timer_sleep (- 5) (boot_state\<lparr>ticks := 250\<rparr>)) = [245]
   \<and> sleep_calls (trace (timer_sleep (- 5) (boot_state\<lparr>ticks := 250\<rparr>))) = [245]
   \<and> global_tick (timer_sleep (- 5) (boot_state\<lparr>ticks := 250\<rparr>)) \<le>s 250"
proof -
  have h: "(- 5 :: int64) \<le>s 0" "0 \<le>s ticks (boot_state\<lparr>ticks := 250\<rparr>)"
    by (simp_all add: word_sle_eq)
  from timer_sleep_nonpositive [OF h(1), of "boot_state\<lparr>ticks := 250\<rparr>"] h
  show ?thesis
    by (simp add: boot_state_def INT64_MAX_def word_sle_eq word_sless_alt)
qed

text \<open>
  C10 as stated fails once the tick counter has wrapped. After \<open>2 ^ 64 - 1\<close> ticks the
  counter is \<open>-1\<close>; \<open>timer_sleep (INT64_MIN)\<close> then computes the deadline \<open>-1 + INT64_MIN\<close>,
  which wraps to \<open>INT64_MAX\<close>: the deadline and the watermark are after the current tick,
  not at or before it.
\<close>

theorem timer_sleep_deadline_wraps:
  "INT64_MIN \<le>s 0
   \<and> ticks (deliver_ticks 18446744073709551615 (intr_set_level INTR_ON boot_state)) = - 1
   \<and> ticks (deliver_ticks 18446744073709551615 (intr_set_level INTR_ON boot_state)) + INT64_MIN
       = INT64_MAX
   \<and> last (sleepers (timer_sleep INT64_MIN
         (deliver_ticks 18446744073709551615 (intr_set_level INTR_ON boot_state)))) = INT64_MAX
   \<and> global_tick (timer_sleep INT64_MIN
         (deliver_ticks 18446744073709551615 (intr_set_level INTR_ON boot_state))) = INT64_MAX
   \<and> \<not> INT64_MAX \<le>s ticks (deliver_ticks 18446744073709551615 (intr_set_level INTR_ON boot_state))"
  by (simp add: timer_sleep_eq deliver_ticks_fields boot_state_def intr_set_level_def emit_def
      INT64_MIN_def INT64_MAX_def word_sle_eq word_sless_alt)

lemma sint_add_nat:
  fixes a :: int64
  assumes "sint a + int k < 2 ^ 63"
  shows "sint (a + of_nat k) = sint a + int k"
proof -
  have lo: "- (2 ^ 63) \<le> sint a"
    using sint_ge [of a] by simp
  have "a + of_nat k = word_of_int (sint a + int k)"
    by simp
  then have "sint (a + of_nat k) = signed_take_bit 63 (sint a + int k)"
    by (simp only: sint_sbintrunc') simp
  also have "\<dots> = sint a + int k"
    using assms lo by (intro signed_take_bit_int_eq_self) auto
  finally show ?thesis .
qed

lemma deliver_ticks_no_wake:
  assumes "sint (ticks s) + int k \<le> sint (global_tick s)"
  shows "wake_calls (trace (deliver_ticks k s)) = wake_calls (trace s)
    \<and> sleepers (deliver_ticks k s) = sleepers s"
  using assms
proof (induction k)
  case 0
  then show ?case by simp
next
  case (Suc k)
  have ub: "sint (global_tick s) < 2 ^ 63"
    using sint_lt [of "global_tick s"] by simp
  have "sint (ticks s + of_nat (Suc k)) = sint (ticks s) + int (Suc k)"
    using Suc.prems ub by (intro sint_add_nat) linarith
  moreover have "ticks s + of_nat k + 1 = ticks s + of_nat (Suc k)"
    by simp
  ultimately have "\<not> global_tick s <s ticks s + of_nat k + 1"
    using Suc.prems by (simp only: word_sless_alt)
  moreover have "wake_calls (trace (deliver_ticks k s)) = wake_calls (trace s)
    \<and> sleepers (deliver_ticks k s) = sleepers s"
    using Suc by simp
  ultimately show ?case
    by (simp add: deliver_tick_eq deliver_ticks_fields wake_calls_append)
qed

subsection \<open>The handler's check of the watermark\<close>

text \<open>
  C1, as the code has it. The handler increments the tick counter and then calls \<open>wake_up\<close>
  exactly when the watermark is strictly below the incremented counter
  (\<open>global_tick < ticks\<close>), with the incremented counter as argument. So for a sleep due
  at tick \<open>D\<close> (the watermark is \<open>D\<close>, the counter is at or before \<open>D\<close>, and \<open>D\<close> is not the
  sentinel), no tick up to and including the one that brings the counter to \<open>D\<close> calls
  \<open>wake_up\<close>; the next tick, which brings the counter to \<open>D + 1\<close>, does.
\<close>

theorem timer_interrupt_wake_strict:
  "ticks (timer_interrupt s) = ticks s + 1
   \<and> wake_calls (trace (timer_interrupt s)) =
       wake_calls (trace s) @
         (if global_tick s <s ticks (timer_interrupt s) then [ticks (timer_interrupt s)] else [])
   \<and> (ticks s \<le>s global_tick s \<and> global_tick s \<noteq> INT64_MAX \<longrightarrow>
        (\<forall>k \<le> nat (sint (global_tick s) - sint (ticks s)).
           wake_calls (trace (deliver_ticks k s)) = wake_calls (trace s))
        \<and> ticks (deliver_ticks (nat (sint (global_tick s) - sint (ticks s))) s) = global_tick s
        \<and> wake_calls (trace (deliver_ticks (Suc (nat (sint (global_tick s) - sint (ticks s)))) s)) =
            wake_calls (trace s) @ [global_tick s + 1])"
proof -
  let ?n = "nat (sint (global_tick s) - sint (ticks s))"
  have a: "ticks (timer_interrupt s) = ticks s + 1"
    by (simp add: timer_interrupt_eq)
  have b: "wake_calls (trace (timer_interrupt s)) =
       wake_calls (trace s) @
         (if global_tick s <s ticks (timer_interrupt s) then [ticks (timer_interrupt s)] else [])"
    by (simp add: timer_interrupt_eq wake_calls_append)
  have c: "(\<forall>k \<le> ?n. wake_calls (trace (deliver_ticks k s)) = wake_calls (trace s))
        \<and> ticks (deliver_ticks ?n s) = global_tick s
        \<and> wake_calls (trace (deliver_ticks (Suc ?n) s)) = wake_calls (trace s) @ [global_tick s + 1]"
    if le: "ticks s \<le>s global_tick s" and ne: "global_tick s \<noteq> INT64_MAX"
  proof -
    have le': "sint (ticks s) \<le> sint (global_tick s)"
      using le by (simp add: word_sle_eq)
    have n: "int ?n = sint (global_tick s) - sint (ticks s)"
      using le' by simp
    have quiet: "wake_calls (trace (deliver_ticks k s)) = wake_calls (trace s)" if "k \<le> ?n" for k
      using that le' by (intro deliver_ticks_no_wake [THEN conjunct1]) linarith
    have "ticks s + of_nat ?n = word_of_int (sint (ticks s) + int ?n)"
      by simp
    also have "\<dots> = global_tick s"
      unfolding n by simp
    finally have at: "ticks (deliver_ticks ?n s) = global_tick s"
      by (simp add: deliver_ticks_fields)
    have "sint (global_tick s) \<noteq> 2 ^ 63 - 1"
    proof
      assume a: "sint (global_tick s) = 2 ^ 63 - 1"
      have "global_tick s = word_of_int (sint (global_tick s))"
        by simp
      then have "global_tick s = INT64_MAX"
        unfolding a by (simp add: INT64_MAX_def)
      with ne show False by simp
    qed
    then have "sint (global_tick s) < 2 ^ 63 - 1"
      using sint_lt [of "global_tick s"] by simp
    then have "sint (global_tick s + 1) = sint (global_tick s) + 1"
      using sint_add_nat [of "global_tick s" 1] by simp
    then have "global_tick s <s global_tick s + 1"
      by (simp add: word_sless_alt)
    then have "wake_calls (trace (deliver_ticks (Suc ?n) s)) = wake_calls (trace s) @ [global_tick s + 1]"
      using at quiet [of ?n]
      by (simp add: deliver_tick_eq deliver_ticks_fields wake_calls_append)
    with quiet at show ?thesis by blast
  qed
  from a b c show ?thesis by blast
qed

text \<open>
  C1 as stated fails: the claim has the sweep on the tick where the counter reaches the
  watermark. After \<open>timer_sleep (2)\<close> at tick 0 the second tick brings the counter to the
  watermark 2 and \<open>wake_up\<close> is not called; in the scenario of the spec, the tick that
  brings the counter to 300 with the watermark at 300 does not call it either.
\<close>

theorem wake_not_fired_at_deadline:
  "run 100 (too_many_loops 1600) [SetLevel INTR_ON, Sleep 2, Tick, Tick] boot_state =
     Some (Inr \<lparr>ticks = 2, global_tick = 2, loops_per_tick = 0, intr_level = INTR_ON,
       sleepers = [2],
       trace = [(INTR_OFF, IntrSetLevel INTR_ON), (INTR_ON, IntrDisable), (INTR_OFF, IntrDisable),
         (INTR_OFF, Load VarTicks), (INTR_OFF, IntrSetLevel INTR_OFF),
         (INTR_OFF, Load VarGlobalTick), (INTR_OFF, Store VarGlobalTick 2),
         (INTR_OFF, ThreadSleep 2), (INTR_OFF, IntrSetLevel INTR_ON),
         (INTR_OFF, Load VarTicks), (INTR_OFF, Store VarTicks 1), (INTR_OFF, ThreadTick),
         (INTR_OFF, Load VarGlobalTick), (INTR_OFF, Load VarTicks),
         (INTR_OFF, Load VarTicks), (INTR_OFF, Store VarTicks 2), (INTR_OFF, ThreadTick),
         (INTR_OFF, Load VarGlobalTick), (INTR_OFF, Load VarTicks)]\<rparr>)
   \<and> ticks (timer_interrupt \<lparr>ticks = 299, global_tick = 300, loops_per_tick = 0,
         intr_level = INTR_OFF, sleepers = [300], trace = []\<rparr>) = 300
   \<and> global_tick (timer_interrupt \<lparr>ticks = 299, global_tick = 300, loops_per_tick = 0,
         intr_level = INTR_OFF, sleepers = [300], trace = []\<rparr>) = 300
   \<and> wake_calls (trace (timer_interrupt \<lparr>ticks = 299, global_tick = 300, loops_per_tick = 0,
         intr_level = INTR_OFF, sleepers = [300], trace = []\<rparr>)) = []"
  by (simp add: step_def boot_state_def intr_set_level_def emit_def timer_sleep_eq deliver_tick_eq
      timer_interrupt_eq INT64_MAX_def word_sless_alt)

theorem timer_interrupt_wake_strict_witness:
  "ticks (boot_state\<lparr>ticks := 250, global_tick := 300\<rparr>)
     \<le>s global_tick (boot_state\<lparr>ticks := 250, global_tick := 300\<rparr>)
   \<and> global_tick (boot_state\<lparr>ticks := 250, global_tick := 300\<rparr>) \<noteq> INT64_MAX
   \<and> wake_calls (trace (deliver_ticks 50 (boot_state\<lparr>ticks := 250, global_tick := 300\<rparr>))) = []
   \<and> ticks (deliver_ticks 50 (boot_state\<lparr>ticks := 250, global_tick := 300\<rparr>)) = 300
   \<and> wake_calls (trace (deliver_ticks (Suc 50) (boot_state\<lparr>ticks := 250, global_tick := 300\<rparr>)))
       = [301]"
proof -
  let ?s = "boot_state\<lparr>ticks := 250, global_tick := 300\<rparr>"
  have h: "ticks ?s \<le>s global_tick ?s \<and> global_tick ?s \<noteq> INT64_MAX"
    by (simp add: INT64_MAX_def)
  have n: "nat (sint (global_tick ?s) - sint (ticks ?s)) = 50"
    by simp
  have e: "wake_calls (trace ?s) = []" "global_tick ?s + 1 = 301"
    by (simp_all add: boot_state_def)
  from timer_interrupt_wake_strict [of ?s] h
  have "(\<forall>k \<le> nat (sint (global_tick ?s) - sint (ticks ?s)).
           wake_calls (trace (deliver_ticks k ?s)) = wake_calls (trace ?s))
        \<and> ticks (deliver_ticks (nat (sint (global_tick ?s) - sint (ticks ?s))) ?s) = global_tick ?s
        \<and> wake_calls (trace (deliver_ticks (Suc (nat (sint (global_tick ?s) - sint (ticks ?s)))) ?s)) =
            wake_calls (trace ?s) @ [global_tick ?s + 1]"
    by blast
  then have "wake_calls (trace (deliver_ticks 50 ?s)) = []
    \<and> ticks (deliver_ticks 50 ?s) = 300
    \<and> wake_calls (trace (deliver_ticks (Suc 50) ?s)) = [301]"
    unfolding n e by simp
  with h show ?thesis by blast
qed

subsection \<open>Runs\<close>

lemma real_time_sleep_Inr:
  assumes "real_time_sleep freq num denom s = Inr s1"
  shows "s1 = timer_sleep (c_div (num * scast freq) (scast denom)) s
    \<or> s1 = busy_wait (busy_wait_arg freq (loops_per_tick s) num denom) s"
  using assms by (auto simp: real_time_sleep_def Let_def split: if_splits)

lemma timer_calibrate_Inr:
  assumes "timer_calibrate tml s = Some (Inr s1)"
  shows "\<exists>l. s1 = s\<lparr>loops_per_tick := l\<rparr>"
  using assms by (auto simp: timer_calibrate_def Let_def split: if_splits sum.splits option.splits)

lemma timer_init_eq:
  "timer_init freq s = s\<lparr>trace := trace s @
     [(intr_level s, Outb 0x43 0x34),
      (intr_level s, Outb 0x40 (ucast (pit_count freq AND 0xff))),
      (intr_level s, Outb 0x40 (ucast (drop_bit 8 (pit_count freq)))),
      (intr_level s, IntrRegisterExt 0x20)]\<rparr>"
  by (simp add: timer_init_def Let_def outb_def intr_register_ext_def emit_def)

lemma timer_elapsed_eq:
  "timer_elapsed t s = (ticks s - t, s\<lparr>trace := trace s @
     [(intr_level s, IntrDisable), (INTR_OFF, Load VarTicks),
      (INTR_OFF, IntrSetLevel (intr_level s))]\<rparr>)"
  by (simp add: timer_elapsed_def timer_ticks_eq)

lemma busy_wait_eq: "busy_wait n s = s\<lparr>trace := trace s @ [(intr_level s, BusyWait n)]\<rparr>"
  by (simp add: busy_wait_def emit_def)

text \<open>
  A step is a delivered tick, a sleep registration, or an operation that leaves the tick
  counter, the watermark and the waiting set alone and makes no call of \<open>thread_sleep\<close> or
  \<open>wake_up\<close>.
\<close>

lemma step_cases:
  assumes "step freq tml o' s = Some (Inr s1)"
  shows "(o' = Tick \<and> s1 = deliver_tick s)
    \<or> (o' \<noteq> Tick \<and>
        ((\<exists>t. s1 = timer_sleep t s)
         \<or> (ticks s1 = ticks s \<and> global_tick s1 = global_tick s \<and> sleepers s1 = sleepers s
             \<and> sleep_calls (trace s1) = sleep_calls (trace s)
             \<and> wake_calls (trace s1) = wake_calls (trace s))))"
proof (cases o')
  case Calibrate
  then show ?thesis
    using assms timer_calibrate_Inr [of tml s s1] by (auto simp: step_def)
next
  case (Msleep n)
  then show ?thesis
    using assms real_time_sleep_Inr [of freq n 1000 s s1]
    by (auto simp: step_def timer_msleep_def busy_wait_eq sleep_calls_append wake_calls_append)
next
  case (Usleep n)
  then show ?thesis
    using assms real_time_sleep_Inr [of freq n "1000 * 1000" s s1]
    by (auto simp: step_def timer_usleep_def busy_wait_eq sleep_calls_append wake_calls_append)
next
  case (Nsleep n)
  then show ?thesis
    using assms real_time_sleep_Inr [of freq n "1000 * 1000 * 1000" s s1]
    by (auto simp: step_def timer_nsleep_def busy_wait_eq sleep_calls_append wake_calls_append)
qed (use assms in \<open>auto simp: step_def timer_ticks_eq timer_elapsed_eq timer_init_eq
    intr_set_level_def emit_def sleep_calls_append wake_calls_append\<close>)

lemma step_ticks:
  assumes "step freq tml o' s = Some (Inr s1)"
  shows "ticks s1 = (if o' = Tick then ticks s + 1 else ticks s)"
  using step_cases [OF assms]
  by (auto simp: deliver_tick_eq timer_sleep_eq)

lemma run_ticks:
  assumes "run freq tml ops s0 = Some (Inr s)"
  shows "ticks s = ticks s0 + of_nat (count_list ops Tick)"
  using assms
proof (induction ops arbitrary: s0)
  case Nil
  then show ?case by simp
next
  case (Cons o' ops)
  then obtain s1 where s1: "step freq tml o' s0 = Some (Inr s1)" "run freq tml ops s1 = Some (Inr s)"
    by (auto split: option.splits sum.splits)
  from Cons.IH [OF s1(2)] step_ticks [OF s1(1)] show ?case
    by simp
qed

lemma run_append:
  "run freq tml (xs @ ys) s =
     (case run freq tml xs s of
        None \<Rightarrow> None
      | Some (Inl e) \<Rightarrow> Some (Inl e)
      | Some (Inr s1) \<Rightarrow> run freq tml ys s1)"
  by (induction xs arbitrary: s) (auto split: option.splits sum.splits)

subsection \<open>The tick counter\<close>

text \<open>
  C6, as the code has it. The counter is 0 at boot; a delivered tick adds 1 to it; no other
  operation of the timer core changes it; so after any run with fewer than \<open>2 ^ 63\<close>
  delivered ticks \<open>timer_ticks\<close> returns the number of ticks delivered since boot, and it
  never decreases along such a run.
\<close>

theorem tick_counter_counts_ticks:
  assumes "run freq tml ops boot_state = Some (Inr s)"
    and "count_list ops Tick < 2 ^ 63"
  shows "ticks boot_state = 0
    \<and> sint (fst (timer_ticks s)) = int (count_list ops Tick)
    \<and> ticks (deliver_tick s) = ticks s + 1
    \<and> (\<forall>o' s1. o' \<noteq> Tick \<and> step freq tml o' s = Some (Inr s1) \<longrightarrow> ticks s1 = ticks s)
    \<and> (\<forall>more s1. run freq tml (ops @ more) boot_state = Some (Inr s1)
          \<and> count_list (ops @ more) Tick < 2 ^ 63
          \<longrightarrow> sint (fst (timer_ticks s)) \<le> sint (fst (timer_ticks s1)))"
proof -
  have count: "sint (ticks s1) = int (count_list xs Tick)"
    if "run freq tml xs boot_state = Some (Inr s1)" "count_list xs Tick < 2 ^ 63" for xs s1
  proof -
    have "ticks s1 = 0 + of_nat (count_list xs Tick)"
      using run_ticks [OF that(1)] by (simp add: boot_state_def)
    moreover have "sint (0 :: int64) + int (count_list xs Tick) < 2 ^ 63"
      using that(2) by simp
    ultimately show ?thesis
      using sint_add_nat [of 0 "count_list xs Tick"] by simp
  qed
  have mono: "sint (ticks s) \<le> sint (ticks s1)"
    if "run freq tml (ops @ more) boot_state = Some (Inr s1)"
      "count_list (ops @ more) Tick < 2 ^ 63" for more s1
    using count [OF that] count [OF assms] by simp
  show ?thesis
    using count [OF assms] mono step_ticks
    by (auto simp: boot_state_def timer_ticks_eq deliver_tick_eq)
qed

theorem tick_counter_counts_ticks_witness:
  "run 100 (too_many_loops 1600) [SetLevel INTR_ON, Tick, Sleep 5, Tick, Tick] boot_state =
     Some (Inr \<lparr>ticks = 3, global_tick = 6, loops_per_tick = 0, intr_level = INTR_ON,
       sleepers = [6],
       trace = [(INTR_OFF, IntrSetLevel INTR_ON),
         (INTR_OFF, Load VarTicks), (INTR_OFF, Store VarTicks 1), (INTR_OFF, ThreadTick),
         (INTR_OFF, Load VarGlobalTick), (INTR_OFF, Load VarTicks),
         (INTR_ON, IntrDisable), (INTR_OFF, IntrDisable), (INTR_OFF, Load VarTicks),
         (INTR_OFF, IntrSetLevel INTR_OFF), (INTR_OFF, Load VarGlobalTick),
         (INTR_OFF, Store VarGlobalTick 6), (INTR_OFF, ThreadSleep 6),
         (INTR_OFF, IntrSetLevel INTR_ON),
         (INTR_OFF, Load VarTicks), (INTR_OFF, Store VarTicks 2), (INTR_OFF, ThreadTick),
         (INTR_OFF, Load VarGlobalTick), (INTR_OFF, Load VarTicks),
         (INTR_OFF, Load VarTicks), (INTR_OFF, Store VarTicks 3), (INTR_OFF, ThreadTick),
         (INTR_OFF, Load VarGlobalTick), (INTR_OFF, Load VarTicks)]\<rparr>)
   \<and> count_list [SetLevel INTR_ON, Tick, Sleep 5, Tick, Tick] Tick < 2 ^ 63
   \<and> sint (fst (timer_ticks \<lparr>ticks = 3, global_tick = 6, loops_per_tick = 0,
       intr_level = INTR_ON, sleepers = [6],
       trace = [(INTR_OFF, IntrSetLevel INTR_ON),
         (INTR_OFF, Load VarTicks), (INTR_OFF, Store VarTicks 1), (INTR_OFF, ThreadTick),
         (INTR_OFF, Load VarGlobalTick), (INTR_OFF, Load VarTicks),
         (INTR_ON, IntrDisable), (INTR_OFF, IntrDisable), (INTR_OFF, Load VarTicks),
         (INTR_OFF, IntrSetLevel INTR_OFF), (INTR_OFF, Load VarGlobalTick),
         (INTR_OFF, Store VarGlobalTick 6), (INTR_OFF, ThreadSleep 6),
         (INTR_OFF, IntrSetLevel INTR_ON),
         (INTR_OFF, Load VarTicks), (INTR_OFF, Store VarTicks 2), (INTR_OFF, ThreadTick),
         (INTR_OFF, Load VarGlobalTick), (INTR_OFF, Load VarTicks),
         (INTR_OFF, Load VarTicks), (INTR_OFF, Store VarTicks 3), (INTR_OFF, ThreadTick),
         (INTR_OFF, Load VarGlobalTick), (INTR_OFF, Load VarTicks)]\<rparr>)) = 3"
proof -
  have r: "run 100 (too_many_loops 1600) [SetLevel INTR_ON, Tick, Sleep 5, Tick, Tick] boot_state =
     Some (Inr \<lparr>ticks = 3, global_tick = 6, loops_per_tick = 0, intr_level = INTR_ON,
       sleepers = [6],
       trace = [(INTR_OFF, IntrSetLevel INTR_ON),
         (INTR_OFF, Load VarTicks), (INTR_OFF, Store VarTicks 1), (INTR_OFF, ThreadTick),
         (INTR_OFF, Load VarGlobalTick), (INTR_OFF, Load VarTicks),
         (INTR_ON, IntrDisable), (INTR_OFF, IntrDisable), (INTR_OFF, Load VarTicks),
         (INTR_OFF, IntrSetLevel INTR_OFF), (INTR_OFF, Load VarGlobalTick),
         (INTR_OFF, Store VarGlobalTick 6), (INTR_OFF, ThreadSleep 6),
         (INTR_OFF, IntrSetLevel INTR_ON),
         (INTR_OFF, Load VarTicks), (INTR_OFF, Store VarTicks 2), (INTR_OFF, ThreadTick),
         (INTR_OFF, Load VarGlobalTick), (INTR_OFF, Load VarTicks),
         (INTR_OFF, Load VarTicks), (INTR_OFF, Store VarTicks 3), (INTR_OFF, ThreadTick),
         (INTR_OFF, Load VarGlobalTick), (INTR_OFF, Load VarTicks)]\<rparr>)"
    by (simp add: step_def boot_state_def intr_set_level_def emit_def timer_sleep_eq deliver_tick_eq
        INT64_MAX_def word_sless_alt)
  have c: "count_list [SetLevel INTR_ON, Tick, Sleep 5, Tick, Tick] Tick < 2 ^ 63"
    by simp
  from tick_counter_counts_ticks [OF r c] r c show ?thesis
    by simp
qed

text \<open>
  C6 as stated fails for a run of \<open>2 ^ 63\<close> ticks: the counter is a signed 64-bit
  integer, and the tick after \<open>2 ^ 63 - 1\<close> takes it to \<open>- 2 ^ 63\<close>.
\<close>

theorem tick_counter_wraps:
  "sint (fst (timer_ticks (deliver_ticks 9223372036854775807 (intr_set_level INTR_ON boot_state))))
     = 9223372036854775807
   \<and> sint (fst (timer_ticks (deliver_ticks 9223372036854775808 (intr_set_level INTR_ON boot_state))))
     = - 9223372036854775808"
  by (simp add: timer_ticks_eq deliver_ticks_fields boot_state_def intr_set_level_def emit_def)

subsection \<open>The watermark\<close>

lemma watermark_inv_boot: "watermark_inv boot_state"
  by (simp add: watermark_inv_def boot_state_def)

lemma watermark_inv_timer_sleep:
  assumes "watermark_inv s"
  shows "watermark_inv (timer_sleep t s)"
proof -
  let ?d = "ticks s + t"
  let ?m = "if global_tick s <s ?d then global_tick s else ?d"
  let ?A = "insert (sint INT64_MAX) (sint ` set (sleep_calls (trace s)))"
  have g: "sint (global_tick s) = Min ?A"
    using assms by (simp add: watermark_inv_def)
  have "Min (insert (sint INT64_MAX) (sint ` set (sleep_calls (trace s) @ [?d])))
      = Min (insert (sint ?d) ?A)"
    by (simp add: insert_commute)
  also have "\<dots> = min (sint ?d) (Min ?A)"
    by (rule Min_insert) simp_all
  finally have m: "sint ?m
      = Min (insert (sint INT64_MAX) (sint ` set (sleep_calls (trace s) @ [?d])))"
    using g by (simp only: sint_if_less min.commute)
  have le: "?m \<le>s x" if "x \<in> set (sleepers s) \<or> x = ?d" for x
  proof -
    have "sint (global_tick s) \<le> sint x" if "x \<in> set (sleepers s)"
      using that assms unfolding watermark_inv_def word_sle_eq by blast
    then have "min (sint (global_tick s)) (sint ?d) \<le> sint x"
      using that by (elim disjE) (simp_all add: min.coboundedI1)
    then show ?thesis
      unfolding word_sle_eq by (simp only: sint_if_less)
  qed
  have f: "global_tick (timer_sleep t s) = ?m" "sleepers (timer_sleep t s) = sleepers s @ [?d]"
    "sleep_calls (trace (timer_sleep t s)) = sleep_calls (trace s) @ [?d]"
    "wake_calls (trace (timer_sleep t s)) = wake_calls (trace s)"
    by (simp_all add: timer_sleep_eq sleep_calls_append wake_calls_append)
  have "\<forall>x \<in> set (sleepers (timer_sleep t s)). global_tick (timer_sleep t s) \<le>s x"
    unfolding f using le by auto
  moreover have "set (sleepers (timer_sleep t s)) \<subseteq> set (sleep_calls (trace (timer_sleep t s)))"
    unfolding f using assms by (auto simp: watermark_inv_def)
  moreover have "sint (global_tick (timer_sleep t s)) =
      Min (insert (sint INT64_MAX) (sint ` set (sleep_calls (trace (timer_sleep t s)))))"
    unfolding f by (rule m)
  moreover have "wake_calls (trace (timer_sleep t s)) = [] \<longrightarrow>
      sleepers (timer_sleep t s) = sleep_calls (trace (timer_sleep t s))"
    unfolding f using assms by (simp add: watermark_inv_def)
  ultimately show ?thesis
    unfolding watermark_inv_def by blast
qed

lemma watermark_inv_deliver_tick:
  assumes "watermark_inv s"
  shows "watermark_inv (deliver_tick s)"
  using assms
  by (auto simp: watermark_inv_def deliver_tick_eq sleep_calls_append wake_calls_append)

lemma watermark_inv_frame:
  assumes "watermark_inv s"
    and "global_tick s1 = global_tick s" and "sleepers s1 = sleepers s"
    and "sleep_calls (trace s1) = sleep_calls (trace s)"
    and "wake_calls (trace s1) = wake_calls (trace s)"
  shows "watermark_inv s1"
  using assms by (simp add: watermark_inv_def)

lemma watermark_inv_step:
  assumes "watermark_inv s" and "step freq tml o' s = Some (Inr s1)"
  shows "watermark_inv s1"
  using step_cases [OF assms(2)] assms(1)
  by (auto simp: watermark_inv_timer_sleep watermark_inv_deliver_tick intro: watermark_inv_frame)

lemma watermark_inv_run:
  assumes "watermark_inv s0" and "run freq tml ops s0 = Some (Inr s)"
  shows "watermark_inv s"
  using assms
proof (induction ops arbitrary: s0)
  case Nil
  then show ?case by simp
next
  case (Cons o' ops)
  then obtain s1 where s1: "step freq tml o' s0 = Some (Inr s1)" "run freq tml ops s1 = Some (Inr s)"
    by (auto split: option.splits sum.splits)
  from Cons.IH [OF watermark_inv_step [OF Cons.prems(1) s1(1)] s1(2)] show ?case .
qed

text \<open>
  C3. In every state reached by a run from boot, the watermark is at or below every
  deadline in the scheduler's waiting set, indeed at or below every deadline ever handed
  to \<open>thread_sleep\<close>, and it is the minimum of the sentinel \<open>INT64_MAX\<close> and all
  deadlines registered so far. While no wake-sweep has run the waiting set is exactly
  the registered deadlines, so after registering \<open>d\<close> and then \<open>d' < d\<close> the next tick
  check sees a watermark at or below \<open>d'\<close>.
\<close>

theorem watermark_le_deadlines:
  assumes "run freq tml ops boot_state = Some (Inr s)"
  shows "(\<forall>d \<in> set (sleepers s). global_tick s \<le>s d)
    \<and> (\<forall>d \<in> set (sleep_calls (trace s)). global_tick s \<le>s d)
    \<and> sint (global_tick s) = Min (insert (sint INT64_MAX) (sint ` set (sleep_calls (trace s))))
    \<and> (wake_calls (trace s) = [] \<longrightarrow> sleepers s = sleep_calls (trace s))"
proof -
  have inv: "watermark_inv s"
    using watermark_inv_run [OF watermark_inv_boot assms] .
  then have g: "sint (global_tick s) =
      Min (insert (sint INT64_MAX) (sint ` set (sleep_calls (trace s))))"
    by (simp add: watermark_inv_def)
  have "global_tick s \<le>s d" if "d \<in> set (sleep_calls (trace s))" for d
  proof -
    have "Min (insert (sint INT64_MAX) (sint ` set (sleep_calls (trace s)))) \<le> sint d"
      using that by (intro Min_le) simp_all
    then show ?thesis
      unfolding word_sle_eq g .
  qed
  with inv g show ?thesis
    by (simp add: watermark_inv_def)
qed

theorem watermark_le_deadlines_witness:
  "run 100 (too_many_loops 1600) [SetLevel INTR_ON, Tick, Sleep 300, Sleep 200, Tick] boot_state =
     Some (Inr \<lparr>ticks = 2, global_tick = 201, loops_per_tick = 0, intr_level = INTR_ON,
       sleepers = [301, 201],
       trace = [(INTR_OFF, IntrSetLevel INTR_ON),
         (INTR_OFF, Load VarTicks), (INTR_OFF, Store VarTicks 1), (INTR_OFF, ThreadTick),
         (INTR_OFF, Load VarGlobalTick), (INTR_OFF, Load VarTicks),
         (INTR_ON, IntrDisable), (INTR_OFF, IntrDisable), (INTR_OFF, Load VarTicks),
         (INTR_OFF, IntrSetLevel INTR_OFF), (INTR_OFF, Load VarGlobalTick),
         (INTR_OFF, Store VarGlobalTick 301), (INTR_OFF, ThreadSleep 301),
         (INTR_OFF, IntrSetLevel INTR_ON),
         (INTR_ON, IntrDisable), (INTR_OFF, IntrDisable), (INTR_OFF, Load VarTicks),
         (INTR_OFF, IntrSetLevel INTR_OFF), (INTR_OFF, Load VarGlobalTick),
         (INTR_OFF, Store VarGlobalTick 201), (INTR_OFF, ThreadSleep 201),
         (INTR_OFF, IntrSetLevel INTR_ON),
         (INTR_OFF, Load VarTicks), (INTR_OFF, Store VarTicks 2), (INTR_OFF, ThreadTick),
         (INTR_OFF, Load VarGlobalTick), (INTR_OFF, Load VarTicks)]\<rparr>)
   \<and> (201 :: int64) \<le>s 301 \<and> (201 :: int64) \<le>s 201
   \<and> sint (201 :: int64) = Min {sint INT64_MAX, sint (301 :: int64), sint (201 :: int64)}"
proof -
  have r: "run 100 (too_many_loops 1600) [SetLevel INTR_ON, Tick, Sleep 300, Sleep 200, Tick] boot_state =
     Some (Inr \<lparr>ticks = 2, global_tick = 201, loops_per_tick = 0, intr_level = INTR_ON,
       sleepers = [301, 201],
       trace = [(INTR_OFF, IntrSetLevel INTR_ON),
         (INTR_OFF, Load VarTicks), (INTR_OFF, Store VarTicks 1), (INTR_OFF, ThreadTick),
         (INTR_OFF, Load VarGlobalTick), (INTR_OFF, Load VarTicks),
         (INTR_ON, IntrDisable), (INTR_OFF, IntrDisable), (INTR_OFF, Load VarTicks),
         (INTR_OFF, IntrSetLevel INTR_OFF), (INTR_OFF, Load VarGlobalTick),
         (INTR_OFF, Store VarGlobalTick 301), (INTR_OFF, ThreadSleep 301),
         (INTR_OFF, IntrSetLevel INTR_ON),
         (INTR_ON, IntrDisable), (INTR_OFF, IntrDisable), (INTR_OFF, Load VarTicks),
         (INTR_OFF, IntrSetLevel INTR_OFF), (INTR_OFF, Load VarGlobalTick),
         (INTR_OFF, Store VarGlobalTick 201), (INTR_OFF, ThreadSleep 201),
         (INTR_OFF, IntrSetLevel INTR_ON),
         (INTR_OFF, Load VarTicks), (INTR_OFF, Store VarTicks 2), (INTR_OFF, ThreadTick),
         (INTR_OFF, Load VarGlobalTick), (INTR_OFF, Load VarTicks)]\<rparr>)"
    by (simp add: step_def boot_state_def intr_set_level_def emit_def timer_sleep_eq deliver_tick_eq
        INT64_MAX_def word_sless_alt)
  from watermark_le_deadlines [OF r] r show ?thesis
    by simp
qed

subsection \<open>Signed division without overflow\<close>

lemma sdiv_nonneg: "0 \<le> a \<Longrightarrow> 0 \<le> b \<Longrightarrow> (a :: int) sdiv b = a div b"
  by (cases "a = 0"; cases "b = 0") (simp_all add: signed_divide_int_def sgn_if)

lemma smod_nonneg: "0 \<le> a \<Longrightarrow> 0 \<le> b \<Longrightarrow> (a :: int) smod b = a mod b"
  by (cases "a = 0"; cases "b = 0") (simp_all add: signed_modulo_int_def sgn_if)

lemma sint_of_int_32:
  "- (2 ^ 31) \<le> k \<Longrightarrow> k < 2 ^ 31 \<Longrightarrow> sint (word_of_int k :: int32) = k"
  by (simp add: sint_sbintrunc' signed_take_bit_int_eq_self)

lemma sint_of_int_64:
  "- (2 ^ 63) \<le> k \<Longrightarrow> k < 2 ^ 63 \<Longrightarrow> sint (word_of_int k :: int64) = k"
  by (simp add: sint_sbintrunc' signed_take_bit_int_eq_self)

lemma sint_add_32:
  fixes a b :: int32
  assumes "- (2 ^ 31) \<le> sint a + sint b" "sint a + sint b < 2 ^ 31"
  shows "sint (a + b) = sint a + sint b"
  using assms by (simp add: sint_word_ariths signed_take_bit_int_eq_self)

subsection \<open>Programming the 8254\<close>

lemma round_half_up_div:
  fixes F :: int
  assumes "0 < F"
  shows "round (real_of_int N / real_of_int F) = (N + F div 2) div F"
proof -
  have "real_of_int N / real_of_int F + 1 / 2 = real_of_int (2 * N + F) / real_of_int (2 * F)"
    using assms by (simp add: field_simps)
  then have "round (real_of_int N / real_of_int F) = (2 * N + F) div (2 * F)"
    unfolding round_def by (simp only: floor_divide_of_int_eq)
  also have "\<dots> = ((2 * N + F) div 2) div F"
    using assms by (simp add: zdiv_zmult2_eq)
  also have "(2 * N + F) div 2 = N + F div 2"
    by simp
  finally show ?thesis .
qed

lemma pit_count_int_value:
  assumes "TIMER_FREQ_ok freq"
  shows "sint (pit_count_int freq) = (1193180 + sint freq div 2) div sint freq"
    and "19 \<le> sint freq" and "sint freq \<le> 1000"
    and "0 \<le> (1193180 + sint freq div 2) div sint freq"
    and "(1193180 + sint freq div 2) div sint freq < 65536"
proof -
  let ?F = "sint freq"
  show F: "19 \<le> ?F" "?F \<le> 1000"
    using assms by (simp_all add: TIMER_FREQ_ok_def word_sless_alt)
  have half: "sint (c_div freq 2) = ?F div 2"
    using F by (simp add: c_div_def sdiv_nonneg sint_of_int_32)
  have "sint (1193180 + c_div freq 2) = sint (1193180 :: int32) + sint (c_div freq 2)"
    using F by (intro sint_add_32) (simp_all add: half)
  then have sum: "sint (1193180 + c_div freq 2) = 1193180 + ?F div 2"
    by (simp add: half)
  show q: "0 \<le> (1193180 + ?F div 2) div ?F" "(1193180 + ?F div 2) div ?F < 65536"
  proof -
    show "0 \<le> (1193180 + ?F div 2) div ?F"
      using F by (simp add: pos_imp_zdiv_nonneg_iff)
    have "(1193180 + ?F div 2) div ?F \<le> (1193180 + ?F div 2) div 19"
      using F by (intro zdiv_mono2) simp_all
    also have "\<dots> \<le> 1193680 div 19"
      using F by (intro zdiv_mono1) simp_all
    also have "\<dots> < 65536"
      by simp
    finally show "(1193180 + ?F div 2) div ?F < 65536" .
  qed
  show "sint (pit_count_int freq) = (1193180 + ?F div 2) div ?F"
    unfolding pit_count_int_def c_div_def [of "1193180 + c_div freq 2"] sum
    using F q by (simp add: sdiv_nonneg sint_of_int_32)
qed

text \<open>
  C9. For every \<open>TIMER_FREQ\<close> that passes the build check, the divisor computed by
  \<open>timer_init\<close> is \<open>1193180 / TIMER_FREQ\<close> rounded to the nearest integer, a tie going up
  (\<open>round x\<close> is the floor of \<open>x + 1/2\<close>), and the conversion to \<open>uint16_t\<close> loses
  nothing: the 16-bit count has the value of the \<open>int\<close> expression, which is below
  \<open>65536\<close>.
\<close>

theorem pit_count_rounds:
  assumes "TIMER_FREQ_ok freq"
  shows "sint (pit_count_int freq) = round (1193180 / real_of_int (sint freq))
    \<and> 0 \<le> sint (pit_count_int freq) \<and> sint (pit_count_int freq) < 65536
    \<and> uint (pit_count freq) = sint (pit_count_int freq)"
proof -
  note v = pit_count_int_value [OF assms]
  have "round (real_of_int 1193180 / real_of_int (sint freq)) = (1193180 + sint freq div 2) div sint freq"
    using v(2) by (intro round_half_up_div) simp
  then have r: "sint (pit_count_int freq) = round (1193180 / real_of_int (sint freq))"
    using v(1) by simp
  have "uint (pit_count_int freq) = take_bit 32 (sint (pit_count_int freq))"
    by (simp add: uint_sint)
  also have "\<dots> = sint (pit_count_int freq)"
    using v by (simp add: take_bit_int_eq_self)
  finally have u: "uint (pit_count_int freq) = sint (pit_count_int freq)" .
  have "uint (pit_count freq) = take_bit 16 (uint (pit_count_int freq))"
    by (simp add: pit_count_def unsigned_ucast_eq)
  also have "\<dots> = sint (pit_count_int freq)"
    unfolding u using v by (simp add: take_bit_int_eq_self)
  finally show ?thesis
    using r v by simp
qed

theorem pit_count_rounds_witness:
  "TIMER_FREQ_ok 100 \<and> sint (pit_count_int 100) = round (1193180 / real_of_int (sint (100 :: int32)))
   \<and> uint (pit_count 100) = sint (pit_count_int 100) \<and> pit_count 100 = 11932"
proof -
  have ok: "TIMER_FREQ_ok 100"
    by (simp add: TIMER_FREQ_ok_def)
  have "pit_count 100 = 11932"
    by (simp add: pit_count_def pit_count_int_def c_div_def)
  with pit_count_rounds [OF ok] ok show ?thesis
    by simp
qed

subsection \<open>Entry points that require interrupts to be on\<close>

text \<open>
  C8. With interrupts off at entry, \<open>timer_calibrate\<close> and \<open>real_time_sleep\<close> (so
  \<open>timer_msleep\<close>, \<open>timer_usleep\<close> and \<open>timer_nsleep\<close>) halt on the failed \<open>ASSERT\<close>
  instead of returning, and the state at the halt is the state at entry: the tick
  counter, the watermark and \<open>loops_per_tick\<close> are untouched. In \<open>real_time_sleep\<close> the
  division by \<open>denom\<close> comes before the assertion; the three entry points pass a
  constant \<open>denom\<close> on which it cannot trap.
\<close>

theorem interrupts_off_halts:
  assumes "intr_get_level s = INTR_OFF"
  shows "timer_calibrate tml s = Some (Inl (AssertFailed, s))
    \<and> timer_msleep freq n s = Inl (AssertFailed, s)
    \<and> timer_usleep freq n s = Inl (AssertFailed, s)
    \<and> timer_nsleep freq n s = Inl (AssertFailed, s)
    \<and> (\<not> c_div_traps (num * scast freq) (scast denom :: int64) \<longrightarrow>
          real_time_sleep freq num denom s = Inl (AssertFailed, s))"
  using assms
  by (simp add: timer_calibrate_def timer_msleep_def timer_usleep_def timer_nsleep_def
      real_time_sleep_def c_div_traps_def Let_def)

theorem interrupts_off_halts_witness:
  "intr_get_level boot_state = INTR_OFF
   \<and> timer_calibrate (too_many_loops 1600) boot_state = Some (Inl (AssertFailed, boot_state))
   \<and> timer_msleep 100 1000 boot_state = Inl (AssertFailed, boot_state)
   \<and> timer_usleep 100 1 boot_state = Inl (AssertFailed, boot_state)
   \<and> timer_nsleep 100 1 boot_state = Inl (AssertFailed, boot_state)
   \<and> \<not> c_div_traps (5 * scast (100 :: int32)) (scast (1000 :: int32) :: int64)
   \<and> real_time_sleep 100 5 1000 boot_state = Inl (AssertFailed, boot_state)"
proof -
  have off: "intr_get_level boot_state = INTR_OFF"
    by (simp add: intr_get_level_def boot_state_def)
  have nt: "\<not> c_div_traps (5 * scast (100 :: int32)) (scast (1000 :: int32) :: int64)"
    by (simp add: c_div_traps_def)
  from interrupts_off_halts [OF off, of "too_many_loops 1600" 100 1000 5 1000]
    interrupts_off_halts [OF off, of "too_many_loops 1600" 100 1 5 1000] off nt
  show ?thesis by simp
qed

subsection \<open>Casts and arithmetic in range\<close>

lemma sint_scast_32_64: "sint (scast (w :: int32) :: int64) = sint w"
  by (simp add: sint_up_scast is_up)

lemma sint_ucast_32_64: "sint (ucast (w :: u32) :: int64) = uint w"
proof -
  have "- (2 ^ 63) \<le> uint w"
    by (rule order_trans [OF _ uint_ge_0]) simp
  moreover have "uint w < 2 ^ 63"
    using uint_lt2p [of w] by simp
  ultimately have "sint (word_of_int (uint w) :: int64) = uint w"
    by (rule sint_of_int_64)
  then show ?thesis
    by simp
qed

lemma sint_mult_64:
  fixes a b :: int64
  assumes "- (2 ^ 63) \<le> sint a * sint b" "sint a * sint b < 2 ^ 63"
  shows "sint (a * b) = sint a * sint b"
  using assms by (simp add: sint_word_mult signed_take_bit_int_eq_self)

lemma int_div_le_self: "0 \<le> a \<Longrightarrow> 0 \<le> b \<Longrightarrow> (a :: int) div b \<le> a"
proof (cases "b = 0")
  case False
  assume "0 \<le> a" "0 \<le> b"
  with False have "a div b \<le> a div 1"
    by (intro zdiv_mono2) simp_all
  then show ?thesis by simp
qed simp

lemma sint_c_div_64:
  fixes a b :: int64
  assumes "0 \<le> sint a" "0 \<le> sint b"
  shows "sint (c_div a b) = sint a div sint b"
proof -
  have "sint a div sint b \<le> sint a"
    using assms by (rule int_div_le_self)
  moreover have "sint a < 2 ^ 63"
    using sint_lt [of a] by simp
  moreover have "0 \<le> sint a div sint b"
    using assms by (simp add: pos_imp_zdiv_nonneg_iff div_int_pos_iff)
  ultimately show ?thesis
    using assms by (simp add: c_div_def sdiv_nonneg sint_of_int_64)
qed

lemma sint_c_div_32:
  fixes a b :: int32
  assumes "0 \<le> sint a" "0 \<le> sint b"
  shows "sint (c_div a b) = sint a div sint b"
proof -
  have "sint a div sint b \<le> sint a"
    using assms by (rule int_div_le_self)
  moreover have "sint a < 2 ^ 31"
    using sint_lt [of a] by simp
  moreover have "0 \<le> sint a div sint b"
    using assms by (simp add: pos_imp_zdiv_nonneg_iff div_int_pos_iff)
  ultimately show ?thesis
    using assms by (simp add: c_div_def sdiv_nonneg sint_of_int_32)
qed

subsection \<open>real\_time\_sleep\<close>

text \<open>A positive \<open>denom\<close> that passes \<open>ASSERT (denom % 1000 == 0)\<close> is at least 1000.\<close>

lemma denom_multiple:
  fixes denom :: int32
  assumes "0 <s denom" and "c_mod denom 1000 = 0"
  shows "sint denom mod 1000 = 0" and "1 \<le> sint denom div 1000"
    and "sint (scast (c_div denom 1000) :: int64) = sint denom div 1000"
proof -
  have pos: "0 < sint denom"
    using assms(1) by (simp add: word_sless_alt)
  have s1000: "sint (1000 :: int32) = 1000"
    by simp
  have sm: "sint denom smod 1000 = sint denom mod 1000"
    using pos by (intro smod_nonneg) simp_all
  have cm: "c_mod denom 1000 = word_of_int (sint denom mod 1000)"
    unfolding c_mod_def s1000 sm ..
  have "- (2 ^ 31) \<le> sint denom mod 1000" "sint denom mod 1000 < 2 ^ 31"
  proof -
    show "- (2 ^ 31) \<le> sint denom mod 1000"
      by (rule order_trans [of _ 0]) simp_all
    show "sint denom mod 1000 < 2 ^ 31"
      by (rule less_trans [of _ 1000]) simp_all
  qed
  then have "sint (c_mod denom 1000) = sint denom mod 1000"
    unfolding cm by (rule sint_of_int_32)
  then show m: "sint denom mod 1000 = 0"
    using assms(2) by simp
  then have "1000 dvd sint denom"
    by (simp add: mod_eq_0_iff_dvd)
  then have "1000 \<le> sint denom"
    using pos by (rule zdvd_imp_le)
  then have "0 < sint denom div 1000"
    by (simp add: pos_imp_zdiv_pos_iff)
  then show "1 \<le> sint denom div 1000"
    by simp
  show "sint (scast (c_div denom 1000) :: int64) = sint denom div 1000"
    using pos by (simp add: sint_scast_32_64 sint_c_div_32)
qed

lemma no_trap_nonzero:
  fixes a b :: int64
  assumes "1 \<le> sint b"
  shows "\<not> c_div_traps a b"
proof -
  have "sint b \<noteq> sint (0 :: int64)" "sint b \<noteq> sint (- 1 :: int64)"
    using assms by simp_all
  then have "b \<noteq> 0" "b \<noteq> - 1"
    by blast+
  then show ?thesis
    by (simp add: c_div_traps_def)
qed

lemma real_time_sleep_on:
  assumes "intr_get_level s = INTR_ON" and "0 <s denom"
  shows "real_time_sleep freq num denom s =
     (if 0 <s c_div (num * scast freq) (scast denom)
      then Inr (timer_sleep (c_div (num * scast freq) (scast denom)) s)
      else if c_mod denom 1000 \<noteq> 0 then Inl (AssertFailed, s)
      else Inr (busy_wait (busy_wait_arg freq (loops_per_tick s) num denom) s))"
proof -
  have "1 \<le> sint (scast denom :: int64)"
    using assms(2) by (simp add: sint_scast_32_64 word_sless_alt)
  then have t1: "\<not> c_div_traps (num * scast freq) (scast denom :: int64)"
    by (rule no_trap_nonzero)
  have t2: "\<not> c_div_traps (c_div (ucast (loops_per_tick s) * num) 1000 * scast freq)
      (scast (c_div denom 1000) :: int64)" if "c_mod denom 1000 = 0"
    using denom_multiple [OF assms(2) that] by (intro no_trap_nonzero) simp
  show ?thesis
    using assms(1) t1 t2 by (simp add: real_time_sleep_def Let_def)
qed

lemma TIMER_FREQ_ok_range:
  assumes "TIMER_FREQ_ok freq"
  shows "19 \<le> sint freq" and "sint freq \<le> 1000"
  using assms by (simp_all add: TIMER_FREQ_ok_def word_sless_alt)

lemma busy_wait_arg_value:
  assumes ok: "TIMER_FREQ_ok freq" and nn: "0 \<le>s num"
    and sub: "sint num * sint freq < sint denom" and m: "c_mod denom 1000 = 0"
  shows "sint (busy_wait_arg freq lpt num denom) =
     (uint lpt * sint num) div 1000 * sint freq div (sint denom div 1000)"
proof -
  let ?L = "uint lpt" and ?n = "sint num" and ?F = "sint freq" and ?d = "sint denom"
  note F = TIMER_FREQ_ok_range [OF ok]
  have n0: "0 \<le> ?n"
    using nn by (simp add: word_sle_eq)
  have nF0: "0 \<le> ?n * ?F"
    using n0 F by simp
  have dpos: "0 <s denom"
    using nF0 sub by (simp add: word_sless_alt)
  note dm = denom_multiple [OF dpos m]
  have L: "0 \<le> ?L" "?L \<le> 2 ^ 32 - 1"
    using uint_lt2p [of lpt] by simp_all
  have nF: "?n * ?F \<le> 2 ^ 31 - 1"
    using sub sint_lt [of denom] by simp
  have big: "?L * (?n * ?F) \<le> (2 ^ 32 - 1) * (2 ^ 31 - 1)"
    using L nF nF0 by (intro mult_mono) simp_all
  have "?n * 1 \<le> ?n * ?F"
    using n0 F by (intro mult_left_mono) simp_all
  then have "?L * ?n \<le> ?L * (?n * ?F)"
    using L by (intro mult_left_mono) simp_all
  with big have p1: "0 \<le> ?L * ?n" "?L * ?n \<le> (2 ^ 32 - 1) * (2 ^ 31 - 1)"
    using L n0 by simp_all
  have s1: "sint (ucast lpt * num) = ?L * ?n"
    using p1 by (simp add: sint_mult_64 sint_ucast_32_64)
  have s2: "sint (c_div (ucast lpt * num) 1000) = (?L * ?n) div 1000"
    using p1 by (simp add: sint_c_div_64 s1)
  have q0: "0 \<le> (?L * ?n) div 1000"
    using p1 by (simp add: pos_imp_zdiv_nonneg_iff)
  have "(?L * ?n) div 1000 \<le> ?L * ?n"
    using p1 by (intro int_div_le_self) simp_all
  then have "(?L * ?n) div 1000 * ?F \<le> ?L * ?n * ?F"
    using F by (intro mult_right_mono) simp_all
  also have "\<dots> = ?L * (?n * ?F)"
    by (simp only: mult.assoc)
  also note big
  finally have p2b: "(?L * ?n) div 1000 * ?F \<le> (2 ^ 32 - 1) * (2 ^ 31 - 1)" .
  have p2a: "0 \<le> (?L * ?n) div 1000 * ?F"
    using q0 F by (intro mult_nonneg_nonneg) simp_all
  note p2 = p2a p2b
  have s3: "sint (c_div (ucast lpt * num) 1000 * scast freq) = (?L * ?n) div 1000 * ?F"
    using p2 by (simp add: sint_mult_64 sint_scast_32_64 s2)
  have "sint (c_div (c_div (ucast lpt * num) 1000 * scast freq) (scast (c_div denom 1000))) =
      sint (c_div (ucast lpt * num) 1000 * scast freq) div sint (scast (c_div denom 1000) :: int64)"
    using p2 dm by (intro sint_c_div_64) (simp_all add: s3)
  then show ?thesis
    by (simp add: busy_wait_arg_def s3 dm)
qed

lemma sint_c_div_pos:
  fixes a b :: int64
  assumes "0 < sint b"
  shows "sint (c_div a b) = sint a sdiv sint b"
proof -
  have r: "- (2 ^ 63) \<le> sint a" "sint a < 2 ^ 63"
    using sint_ge [of a] sint_lt [of a] by simp_all
  have rng: "sint a sdiv sint b \<in> {- \<bar>sint a\<bar>..\<bar>sint a\<bar>}"
    by (rule sdiv_int_range)
  have lo: "- (2 ^ 63) \<le> sint a sdiv sint b"
    using rng r by auto
  have hi: "sint a sdiv sint b < 2 ^ 63"
  proof (cases "0 \<le> sint a")
    case True
    then show ?thesis using rng r by auto
  next
    case False
    then have "sint a sdiv sint b \<le> 0"
      using assms by (simp add: signed_divide_int_def sgn_if pos_imp_zdiv_nonneg_iff)
    then show ?thesis by simp
  qed
  show ?thesis
    unfolding c_div_def using lo hi by (rule sint_of_int_64)
qed

text \<open>
  C2, as the code has it. In the sub-tick branch, with \<open>denom\<close> a positive multiple of
  1000, the argument of \<open>busy_wait\<close> is
  \<open>((loops_per_tick * num) / 1000 * TIMER_FREQ) / (denom / 1000)\<close>, read from left to
  right: \<open>loops_per_tick\<close> is multiplied by \<open>num\<close> first, the product is divided by 1000,
  multiplied by \<open>TIMER_FREQ\<close>, and divided by \<open>denom / 1000\<close>. For a duration that is
  really below one tick (\<open>0 \<le> num\<close> and \<open>num * TIMER_FREQ < denom\<close>) nothing overflows
  and the argument is that value over the integers.
\<close>

theorem busy_wait_count_grouping:
  assumes "intr_get_level s = INTR_ON" and "0 <s denom" and "c_mod denom 1000 = 0"
    and "\<not> 0 <s c_div (num * scast freq) (scast denom)"
  shows "real_time_sleep freq num denom s =
      Inr (busy_wait (busy_wait_arg freq (loops_per_tick s) num denom) s)
    \<and> busy_calls (trace (busy_wait (busy_wait_arg freq (loops_per_tick s) num denom) s)) =
        busy_calls (trace s) @
          [c_div (c_div (ucast (loops_per_tick s) * num) 1000 * scast freq)
             (scast (c_div denom 1000))]
    \<and> (TIMER_FREQ_ok freq \<and> 0 \<le>s num \<and> sint num * sint freq < sint denom \<longrightarrow>
          sint (busy_wait_arg freq (loops_per_tick s) num denom) =
            (uint (loops_per_tick s) * sint num) div 1000 * sint freq div (sint denom div 1000))"
  using assms busy_wait_arg_value [of freq num denom "loops_per_tick s"]
  by (simp add: real_time_sleep_on busy_wait_eq busy_calls_append busy_wait_arg_def)

theorem busy_wait_count_grouping_witness:
  "intr_get_level (boot_state\<lparr>loops_per_tick := 100000, intr_level := INTR_ON\<rparr>) = INTR_ON
   \<and> 0 <s (1000000 :: int32) \<and> c_mod (1000000 :: int32) 1000 = 0
   \<and> \<not> 0 <s c_div (500 * scast (100 :: int32)) (scast (1000000 :: int32) :: int64)
   \<and> TIMER_FREQ_ok 100 \<and> 0 \<le>s (500 :: int64)
   \<and> sint (500 :: int64) * sint (100 :: int32) < sint (1000000 :: int32)
   \<and> real_time_sleep 100 500 1000000 (boot_state\<lparr>loops_per_tick := 100000, intr_level := INTR_ON\<rparr>) =
       Inr (busy_wait (busy_wait_arg 100 100000 500 1000000)
         (boot_state\<lparr>loops_per_tick := 100000, intr_level := INTR_ON\<rparr>))
   \<and> sint (busy_wait_arg 100 100000 500 1000000) = 5000"
proof -
  let ?s = "boot_state\<lparr>loops_per_tick := 100000, intr_level := INTR_ON\<rparr>"
  have h: "intr_get_level ?s = INTR_ON" "0 <s (1000000 :: int32)" "c_mod (1000000 :: int32) 1000 = 0"
    "\<not> 0 <s c_div (500 * scast (100 :: int32)) (scast (1000000 :: int32) :: int64)"
    by (simp_all add: intr_get_level_def c_mod_def c_div_def signed_divide_int_def
        signed_modulo_int_def word_sless_alt)
  have g: "TIMER_FREQ_ok 100" "0 \<le>s (500 :: int64)"
    "sint (500 :: int64) * sint (100 :: int32) < sint (1000000 :: int32)"
    by (simp_all add: TIMER_FREQ_ok_def word_sle_eq)
  have l: "loops_per_tick ?s = 100000"
    by simp
  from busy_wait_count_grouping [OF h] g
  have "real_time_sleep 100 500 1000000 ?s =
        Inr (busy_wait (busy_wait_arg 100 (loops_per_tick ?s) 500 1000000) ?s)
    \<and> sint (busy_wait_arg 100 (loops_per_tick ?s) 500 1000000) =
        (uint (loops_per_tick ?s) * sint (500 :: int64)) div 1000 * sint (100 :: int32)
          div (sint (1000000 :: int32) div 1000)"
    by blast
  then have "real_time_sleep 100 500 1000000 ?s =
        Inr (busy_wait (busy_wait_arg 100 100000 500 1000000) ?s)
    \<and> sint (busy_wait_arg 100 100000 500 1000000) = 5000"
    unfolding l by simp
  with h g show ?thesis by blast
qed

text \<open>
  C2 as stated fails: the claim divides \<open>num\<close> by 1000 before the multiplication by
  \<open>loops_per_tick\<close>. For \<open>timer_usleep (500)\<close> at 100 Hz with \<open>loops_per_tick = 100000\<close> the
  code spins 5000 times; the grouping of the claim gives 0.
\<close>

theorem busy_wait_count_not_spec_grouping:
  "real_time_sleep 100 500 1000000 (boot_state\<lparr>loops_per_tick := 100000, intr_level := INTR_ON\<rparr>) =
     Inr (boot_state\<lparr>loops_per_tick := 100000, intr_level := INTR_ON,
       trace := [(INTR_ON, BusyWait 5000)]\<rparr>)
   \<and> busy_wait_arg_spec 100 100000 500 1000000 = 0"
  by (simp add: real_time_sleep_def intr_get_level_def boot_state_def c_div_traps_def c_div_def
      c_mod_def busy_wait_arg_def busy_wait_arg_spec_def busy_wait_eq Let_def
      signed_divide_int_def signed_modulo_int_def word_sless_alt)

text \<open>
  C7, as the code has it. With interrupts on and \<open>denom\<close> a positive multiple of 1000
  (the entry points pass 1000, 1000000 and 1000000000), \<open>real_time_sleep\<close> computes
  \<open>ticks = num * TIMER_FREQ / denom\<close> in 64-bit arithmetic, the quotient truncated toward
  zero. When \<open>ticks > 0\<close> it calls \<open>timer_sleep (ticks)\<close>, which registers one deadline
  and makes no call of \<open>busy_wait\<close>; otherwise it calls \<open>busy_wait\<close> once and registers
  nothing. At \<open>TIMER_FREQ = 100\<close>, \<open>timer_msleep (1000)\<close> is \<open>timer_sleep (100)\<close> and
  \<open>timer_usleep (1)\<close> is a busy-wait.
\<close>

theorem real_time_sleep_branches:
  assumes "intr_get_level s = INTR_ON" and "0 <s denom" and "c_mod denom 1000 = 0"
  shows "(0 <s c_div (num * scast freq) (scast denom) \<longrightarrow>
        real_time_sleep freq num denom s =
          Inr (timer_sleep (c_div (num * scast freq) (scast denom)) s)
        \<and> sleep_calls (trace (timer_sleep (c_div (num * scast freq) (scast denom)) s)) =
            sleep_calls (trace s) @ [ticks s + c_div (num * scast freq) (scast denom)]
        \<and> busy_calls (trace (timer_sleep (c_div (num * scast freq) (scast denom)) s)) =
            busy_calls (trace s))
    \<and> (\<not> 0 <s c_div (num * scast freq) (scast denom) \<longrightarrow>
        real_time_sleep freq num denom s =
          Inr (busy_wait (busy_wait_arg freq (loops_per_tick s) num denom) s)
        \<and> busy_calls (trace (busy_wait (busy_wait_arg freq (loops_per_tick s) num denom) s)) =
            busy_calls (trace s) @ [busy_wait_arg freq (loops_per_tick s) num denom]
        \<and> sleep_calls (trace (busy_wait (busy_wait_arg freq (loops_per_tick s) num denom) s)) =
            sleep_calls (trace s)
        \<and> sleepers (busy_wait (busy_wait_arg freq (loops_per_tick s) num denom) s) = sleepers s
        \<and> global_tick (busy_wait (busy_wait_arg freq (loops_per_tick s) num denom) s) =
            global_tick s)
    \<and> sint (c_div (num * scast freq) (scast denom :: int64)) =
        sgn (sint (num * scast freq)) * (\<bar>sint (num * scast freq)\<bar> div sint denom)
    \<and> (- (2 ^ 63) \<le> sint num * sint freq \<and> sint num * sint freq < 2 ^ 63 \<longrightarrow>
        sint (num * scast freq :: int64) = sint num * sint freq)
    \<and> timer_msleep 100 1000 s = Inr (timer_sleep 100 s)
    \<and> timer_usleep 100 1 s = Inr (busy_wait (busy_wait_arg 100 (loops_per_tick s) 1 (1000 * 1000)) s)"
proof -
  have dpos: "0 < sint (scast denom :: int64)"
    using assms(2) by (simp add: sint_scast_32_64 word_sless_alt)
  have trunc: "sint (c_div (num * scast freq) (scast denom :: int64)) =
        sgn (sint (num * scast freq)) * (\<bar>sint (num * scast freq)\<bar> div sint denom)"
    using dpos by (simp add: sint_c_div_pos signed_divide_int_def sint_scast_32_64)
  have prod: "sint (num * scast freq :: int64) = sint num * sint freq"
    if "- (2 ^ 63) \<le> sint num * sint freq \<and> sint num * sint freq < 2 ^ 63"
    using that by (simp add: sint_mult_64 sint_scast_32_64)
  have ms: "timer_msleep 100 1000 s = Inr (timer_sleep 100 s)"
    using assms(1)
    by (simp add: timer_msleep_def real_time_sleep_on c_div_def signed_divide_int_def
        word_sless_alt)
  have us: "timer_usleep 100 1 s =
      Inr (busy_wait (busy_wait_arg 100 (loops_per_tick s) 1 (1000 * 1000)) s)"
    using assms(1)
    by (simp add: timer_usleep_def real_time_sleep_on c_div_def c_mod_def signed_divide_int_def
        signed_modulo_int_def word_sless_alt)
  show ?thesis
    using assms trunc prod ms us
    by (simp add: real_time_sleep_on timer_sleep_eq busy_wait_eq sleep_calls_append
        busy_calls_append)
qed

theorem real_time_sleep_branches_witness:
  "intr_get_level (intr_set_level INTR_ON boot_state) = INTR_ON
   \<and> 0 <s (1000 :: int32) \<and> c_mod (1000 :: int32) 1000 = 0
   \<and> 0 <s c_div (1000 * scast (100 :: int32)) (scast (1000 :: int32) :: int64)
   \<and> real_time_sleep 100 1000 1000 (intr_set_level INTR_ON boot_state) =
       Inr (timer_sleep 100 (intr_set_level INTR_ON boot_state))
   \<and> \<not> 0 <s c_div (5 * scast (100 :: int32)) (scast (1000 :: int32) :: int64)
   \<and> real_time_sleep 100 5 1000 (intr_set_level INTR_ON boot_state) =
       Inr (busy_wait (busy_wait_arg 100 0 5 1000) (intr_set_level INTR_ON boot_state))
   \<and> timer_msleep 100 1000 (intr_set_level INTR_ON boot_state) =
       Inr (timer_sleep 100 (intr_set_level INTR_ON boot_state))"
proof -
  let ?s = "intr_set_level INTR_ON boot_state"
  have h: "intr_get_level ?s = INTR_ON" "0 <s (1000 :: int32)" "c_mod (1000 :: int32) 1000 = 0"
    by (simp_all add: intr_get_level_def intr_set_level_def emit_def c_mod_def signed_modulo_int_def
        word_sless_alt)
  have a: "0 <s c_div (1000 * scast (100 :: int32)) (scast (1000 :: int32) :: int64)"
    "\<not> 0 <s c_div (5 * scast (100 :: int32)) (scast (1000 :: int32) :: int64)"
    by (simp_all add: c_div_def signed_divide_int_def word_sless_alt)
  have l: "loops_per_tick ?s = 0"
    by (simp add: intr_set_level_def emit_def boot_state_def)
  from real_time_sleep_branches [OF h, of 1000 100] real_time_sleep_branches [OF h, of 5 100] a
  have "real_time_sleep 100 1000 1000 ?s = Inr (timer_sleep 100 ?s)
    \<and> real_time_sleep 100 5 1000 ?s = Inr (busy_wait (busy_wait_arg 100 (loops_per_tick ?s) 5 1000) ?s)
    \<and> timer_msleep 100 1000 ?s = Inr (timer_sleep 100 ?s)"
    by (simp add: c_div_def signed_divide_int_def)
  with h a show ?thesis
    unfolding l by blast
qed

text \<open>
  C7 as stated fails outside that contract. With interrupts on,
  \<open>real_time_sleep (0, 1500)\<close> computes \<open>ticks = 0\<close> and halts on
  \<open>ASSERT (denom % 1000 == 0)\<close> without a call of \<open>busy_wait\<close>; with interrupts off,
  \<open>timer_msleep (1000)\<close> halts on the first assertion and does not reach \<open>timer_sleep\<close>.
\<close>

theorem real_time_sleep_asserts:
  "c_div (0 * scast (100 :: int32)) (scast (1500 :: int32) :: int64) = 0
   \<and> real_time_sleep 100 0 1500 (intr_set_level INTR_ON boot_state) =
       Inl (AssertFailed, intr_set_level INTR_ON boot_state)
   \<and> timer_msleep 100 1000 boot_state = Inl (AssertFailed, boot_state)"
  by (simp add: real_time_sleep_def timer_msleep_def intr_get_level_def intr_set_level_def emit_def
      boot_state_def c_div_traps_def c_div_def c_mod_def Let_def
      signed_divide_int_def signed_modulo_int_def word_sless_alt)

subsection \<open>Calibration\<close>

lemma pow2_bit: "bit (2 ^ m :: u32) i \<longleftrightarrow> i = m \<and> m < 32"
  by (auto simp: bit_exp_iff)

lemma drop_pow2_distinct:
  fixes h :: u32
  assumes "h = 2 ^ m" "10 \<le> m" "m < 32" "j < 10"
  shows "drop_bit j h \<noteq> drop_bit 10 h"
proof
  assume "drop_bit j h = drop_bit 10 h"
  then have "bit (drop_bit j h) (m - j) = bit (drop_bit 10 h) (m - j)"
    by simp
  then show False
    using assms by (simp add: bit_drop_bit_eq pow2_bit)
qed

text \<open>The first loop leaves a power of two between \<open>2 ^ 10\<close> and \<open>2 ^ 31\<close>.\<close>

lemma calibrate_double_step:
  "calibrate_double tml (2 ^ k) =
     (if \<not> tml (2 ^ Suc k)
      then (if (2 ^ Suc k :: u32) \<noteq> 0 then calibrate_double tml (2 ^ Suc k) else Inl (2 ^ Suc k))
      else Inr (2 ^ k))"
  by (subst calibrate_double.simps) (simp add: Let_def mult.commute)

lemma calibrate_double_pow2:
  assumes "calibrate_double tml (2 ^ k) = Inr h" and "k < 32"
  shows "\<exists>m. k \<le> m \<and> m < 32 \<and> h = 2 ^ m"
  using assms
proof (induction "31 - k" arbitrary: k)
  case 0
  then have k: "k = 31" by simp
  have "(2 ^ Suc 31 :: u32) = 0"
    by simp
  then have "h = 2 ^ 31"
    using "0.prems"(1) unfolding k calibrate_double_step [of tml 31]
    by (simp split: if_splits)
  then show ?case using k by auto
next
  case (Suc n)
  then have k: "Suc k < 32" "n = 31 - Suc k"
    by simp_all
  have "bit (2 ^ Suc k :: u32) (Suc k)"
    using k(1) by (simp only: pow2_bit)
  then have nz: "(2 ^ Suc k :: u32) \<noteq> 0"
    by (metis bit_0_eq bot_apply bot_bool_def)
  show ?case
  proof (cases "tml (2 ^ Suc k)")
    case True
    then have "h = 2 ^ k"
      using Suc.prems(1) unfolding calibrate_double_step [of tml k] by simp
    then show ?thesis using Suc.prems(2) by auto
  next
    case False
    then have "calibrate_double tml (2 ^ Suc k) = Inr h"
      using Suc.prems(1) nz unfolding calibrate_double_step [of tml k] by simp
    from Suc.hyps(1) [OF k(2) this k(1)] show ?thesis
      by (auto intro: Suc_leD)
  qed
qed

text \<open>
  The second loop, from \<open>test_bit = high_bit >> j\<close>: it runs through the shifts
  \<open>j, ..., 9\<close> and stops at \<open>high_bit >> 10\<close>, which it does not test.
\<close>

lemma calibrate_refine_closed:
  assumes "\<forall>j < 10. drop_bit j h \<noteq> drop_bit 10 h" and "j \<le> 10"
  shows "calibrate_refine tml h (drop_bit j h) lpt =
     Some (fold (\<lambda>j acc. if \<not> tml (h OR drop_bit j h) then acc OR drop_bit j h else acc)
       [j..<10] lpt)"
  using assms(2)
proof (induction "10 - j" arbitrary: j lpt)
  case 0
  then have "j = 10" by simp
  then show ?case
    by (subst calibrate_refine.simps) simp
next
  case (Suc n)
  then have j: "j < 10" "n = 10 - Suc j" "Suc j \<le> 10"
    by simp_all
  have ne: "drop_bit j h \<noteq> drop_bit 10 h"
    using assms(1) j(1) by blast
  have sh: "drop_bit 1 (drop_bit j h) = drop_bit (Suc j) h"
    by simp
  have l: "[j..<10] = j # [Suc j..<10]"
    using j(1) by (simp add: upt_conv_Cons)
  show ?case
    unfolding l
    by (subst calibrate_refine.simps) (simp add: ne sh Suc.hyps(1) [OF j(2) j(3)])
qed

lemma fold_or_bits:
  "bit (fold (\<lambda>j acc. if P j then acc OR f j else acc) js (acc0 :: u32)) i \<longleftrightarrow>
     bit acc0 i \<or> (\<exists>j \<in> set js. P j \<and> bit (f j) i)"
  by (induction js arbitrary: acc0) (auto simp: bit_or_iff)

lemma timer_calibrate_result:
  assumes "intr_get_level s = INTR_ON" and "calibrate_double tml (push_bit 10 1) = Inr h"
  shows "\<exists>m. 10 \<le> m \<and> m < 32 \<and> h = 2 ^ m
    \<and> timer_calibrate tml s = Some (Inr (s\<lparr>loops_per_tick :=
        fold (\<lambda>j acc. if \<not> tml (h OR drop_bit j h) then acc OR drop_bit j h else acc)
          [1..<10] h\<rparr>))"
proof -
  have "calibrate_double tml (2 ^ 10) = Inr h"
    using assms(2) by simp
  then obtain m where m: "10 \<le> m" "m < 32" "h = 2 ^ m"
    using calibrate_double_pow2 [of tml 10 h] by auto
  then have "\<forall>j < 10. drop_bit j h \<noteq> drop_bit 10 h"
    using drop_pow2_distinct by blast
  then have "calibrate_refine tml h (drop_bit 1 h) h =
     Some (fold (\<lambda>j acc. if \<not> tml (h OR drop_bit j h) then acc OR drop_bit j h else acc)
       [1..<10] h)"
    by (intro calibrate_refine_closed) simp_all
  then have "timer_calibrate tml s = Some (Inr (s\<lparr>loops_per_tick :=
        fold (\<lambda>j acc. if \<not> tml (h OR drop_bit j h) then acc OR drop_bit j h else acc)
          [1..<10] h\<rparr>))"
    using assms by (simp add: timer_calibrate_def)
  with m show ?thesis by blast
qed

text \<open>\<open>timer_calibrate\<close> always returns: both loops end, whatever the machine answers.\<close>

lemma timer_calibrate_returns: "\<exists>r. timer_calibrate tml s = Some r"
proof (cases "intr_get_level s = INTR_ON")
  case on: True
  show ?thesis
  proof (cases "calibrate_double tml (push_bit 10 1)")
    case (Inl a)
    then show ?thesis using on by (simp add: timer_calibrate_def)
  next
    case (Inr h)
    from timer_calibrate_result [OF on Inr] show ?thesis by blast
  qed
qed (simp add: timer_calibrate_def)

text \<open>
  What the second loop computes, whatever the machine answers: with \<open>h = 2 ^ m\<close> left by
  the first loop, bit \<open>m\<close> of the result is set, each of the nine bits below it is set
  exactly when \<open>too_many_loops (h | bit)\<close> is false, and every other bit is clear.
\<close>

lemma calibrate_refine_bits:
  assumes "intr_get_level s = INTR_ON" and "calibrate_double tml (push_bit 10 1) = Inr h"
  shows "\<exists>m r. 10 \<le> m \<and> m < 32 \<and> h = 2 ^ m
    \<and> timer_calibrate tml s = Some (Inr (s\<lparr>loops_per_tick := r\<rparr>))
    \<and> (\<forall>i. bit r i \<longleftrightarrow> i = m \<or> (i < m \<and> m - i \<le> 9 \<and> \<not> tml (h OR 2 ^ i)))"
proof -
  let ?r = "fold (\<lambda>j acc. if \<not> tml (h OR drop_bit j h) then acc OR drop_bit j h else acc)
    [1..<10] h"
  from timer_calibrate_result [OF assms] obtain m where
    m: "10 \<le> m" "m < 32" "h = 2 ^ m" and
    c: "timer_calibrate tml s = Some (Inr (s\<lparr>loops_per_tick := ?r\<rparr>))"
    by blast
  have d: "drop_bit j h = 2 ^ (m - j)" if "j < 10" for j
    using that m by (simp add: drop_bit_exp_eq)
  have "bit ?r i \<longleftrightarrow> i = m \<or> (i < m \<and> m - i \<le> 9 \<and> \<not> tml (h OR 2 ^ i))" for i
  proof -
    have "bit ?r i \<longleftrightarrow> bit h i \<or> (\<exists>j \<in> set [1..<10]. \<not> tml (h OR drop_bit j h) \<and> bit (drop_bit j h) i)"
      by (rule fold_or_bits)
    also have "\<dots> \<longleftrightarrow> i = m \<or> (\<exists>j \<in> {1..<10}. \<not> tml (h OR 2 ^ (m - j)) \<and> i = m - j)"
    proof -
      have hb: "bit h i \<longleftrightarrow> i = m"
        using m(2) unfolding m(3) by (simp add: pow2_bit)
      have pj: "(\<not> tml (h OR drop_bit j h) \<and> bit (drop_bit j h) i) \<longleftrightarrow>
          (\<not> tml (h OR 2 ^ (m - j)) \<and> i = m - j)" if "j \<in> {1..<10}" for j
      proof -
        have "j < 10" using that by simp
        then have "drop_bit j h = 2 ^ (m - j)" by (rule d)
        moreover have "m - j < 32" using m(2) by simp
        ultimately show ?thesis by (simp add: pow2_bit)
      qed
      have "(\<exists>j \<in> set [1..<10]. \<not> tml (h OR drop_bit j h) \<and> bit (drop_bit j h) i) \<longleftrightarrow>
          (\<exists>j \<in> {1..<10}. \<not> tml (h OR 2 ^ (m - j)) \<and> i = m - j)"
        unfolding set_upt by (rule bex_cong [OF refl]) (rule pj)
      with hb show ?thesis by simp
    qed
    also have "\<dots> \<longleftrightarrow> i = m \<or> (i < m \<and> m - i \<le> 9 \<and> \<not> tml (h OR 2 ^ i))"
    proof -
      have "(\<exists>j \<in> {1..<10}. \<not> tml (h OR 2 ^ (m - j)) \<and> i = m - j) \<longleftrightarrow>
          (i < m \<and> m - i \<le> 9 \<and> \<not> tml (h OR 2 ^ i))"
      proof
        assume "\<exists>j \<in> {1..<10}. \<not> tml (h OR 2 ^ (m - j)) \<and> i = m - j"
        then obtain j where "1 \<le> j" "j < 10" "\<not> tml (h OR 2 ^ (m - j))" "i = m - j"
          by auto
        then show "i < m \<and> m - i \<le> 9 \<and> \<not> tml (h OR 2 ^ i)"
          using m by auto
      next
        assume a: "i < m \<and> m - i \<le> 9 \<and> \<not> tml (h OR 2 ^ i)"
        then have "m - i \<in> {1..<10}" "i = m - (m - i)"
          by auto
        with a show "\<exists>j \<in> {1..<10}. \<not> tml (h OR 2 ^ (m - j)) \<and> i = m - j"
          by (intro bexI [of _ "m - i"]) simp_all
      qed
      then show ?thesis by simp
    qed
    finally show ?thesis .
  qed
  with m c show ?thesis by blast
qed

text \<open>
  C4. A bit of the refinement is to be kept exactly when the count with that bit OR-ed
  into the accumulated \<open>loops_per_tick\<close> still fits in a tick, so that the result is a
  number of loops per tick. The code hands \<open>high_bit | test_bit\<close> to \<open>too_many_loops\<close>,
  without the bits accepted before. On a machine where 1600 loops fit in a tick the first
  loop leaves \<open>h = 1024\<close>; the refinement as stated keeps 512 and 64 and gives 1600, which
  fits; the code finds that \<open>1024 | bit\<close> fits for each of the nine bits alone, keeps
  them all, among them 256 although \<open>1024 | 512 | 256\<close> does not fit, and returns 2046,
  which takes more than a tick.
\<close>

theorem calibrate_overshoots_tick:
  "calibrate_double (too_many_loops 1600) (push_bit 10 1) = Inr 1024
   \<and> timer_calibrate (too_many_loops 1600) (intr_set_level INTR_ON boot_state) =
       Some (Inr (intr_set_level INTR_ON boot_state\<lparr>loops_per_tick := 2046\<rparr>))
   \<and> too_many_loops 1600 2046
   \<and> \<not> too_many_loops 1600 (1024 OR 512)
   \<and> \<not> too_many_loops 1600 (1024 OR 256)
   \<and> too_many_loops 1600 (1024 OR 512 OR 256)
   \<and> calibrate_refine_spec (too_many_loops 1600) 1024 = 1600
   \<and> \<not> too_many_loops 1600 1600"
  by (simp add: timer_calibrate_def intr_get_level_def intr_set_level_def emit_def
      too_many_loops_def calibrate_refine.simps calibrate_refine_spec_def)

end
